(* ===== verification/JsValue.thy ===== *)
theory JsValue
  imports Prelude Complex_Main
begin

text \<open>
  What the plugin front end (plugins/alarm-demo/src) uses of JavaScript: strings as
  sequences of UTF-16 code units, numbers as binary64 values, JSON values, property reads,
  and the conversions \<open>String(v)\<close>, \<open>Number(v)\<close>, \<open>a + b\<close> and property keys.
  Negative zero is not distinguished from zero: the code never divides, and every use of a
  number here (addition, comparison, \<open>||\<close>, printing) gives the same result for both.
\<close>

subsection \<open>Strings\<close>

type_synonym jstring = "nat list"

definition js :: "string \<Rightarrow> jstring" where
  "js s = map of_char s"

lemma js_inject [simp]: "js s = js t \<longleftrightarrow> s = t"
  by (simp add: js_def inj_map_eq_map inj_on_def)

lemma js_Nil [simp]: "js [] = []" and js_eq_Nil [simp]: "js s = [] \<longleftrightarrow> s = []"
  by (simp_all add: js_def)

subsection \<open>Numbers\<close>

datatype jsnum = NaN | PosInf | NegInf | Fin rat

fun bitlen :: "nat \<Rightarrow> nat" where
  "bitlen n = (if n = 0 then 0 else Suc (bitlen (n div 2)))"

declare bitlen.simps [simp del]

definition pow2 :: "int \<Rightarrow> rat" where
  "pow2 k = (if 0 \<le> k then 2 ^ nat k else 1 / 2 ^ nat (- k))"

definition pow10 :: "int \<Rightarrow> rat" where
  "pow10 k = (if 0 \<le> k then 10 ^ nat k else 1 / 10 ^ nat (- k))"

text \<open>\<open>ilog2 a\<close> for \<open>a > 0\<close>: the \<open>e\<close> with \<open>2^e \<le> a < 2^(e+1)\<close>.\<close>

definition ilog2 :: "rat \<Rightarrow> int" where
  "ilog2 a = (let (p, q) = quotient_of a;
                  e = int (bitlen (nat p)) - int (bitlen (nat q))
              in if a < pow2 e then e - 1 else e)"

definition round_even :: "rat \<Rightarrow> int" where
  "round_even x = (let f = \<lfloor>x\<rfloor>; r = x - of_int f
                   in if r < 1 / 2 then f else if 1 / 2 < r then f + 1
                      else if even f then f else f + 1)"

text \<open>Round a rational to the nearest binary64 value, ties to even.\<close>

definition rnd :: "rat \<Rightarrow> jsnum" where
  "rnd x =
     (if x = 0 then Fin 0
      else let q = max (ilog2 \<bar>x\<bar> - 52) (- 1074);
               v = of_int (round_even (\<bar>x\<bar> / pow2 q)) * pow2 q
           in if pow2 1024 \<le> v then (if x < 0 then NegInf else PosInf)
              else Fin (if x < 0 then - v else v))"

fun num_add :: "jsnum \<Rightarrow> jsnum \<Rightarrow> jsnum" where
  "num_add NaN _ = NaN"
| "num_add _ NaN = NaN"
| "num_add PosInf NegInf = NaN"
| "num_add NegInf PosInf = NaN"
| "num_add PosInf _ = PosInf"
| "num_add _ PosInf = PosInf"
| "num_add NegInf _ = NegInf"
| "num_add _ NegInf = NegInf"
| "num_add (Fin x) (Fin y) = rnd (x + y)"

fun num_ge :: "jsnum \<Rightarrow> jsnum \<Rightarrow> bool" where
  "num_ge NaN _ = False"
| "num_ge _ NaN = False"
| "num_ge PosInf _ = True"
| "num_ge _ PosInf = False"
| "num_ge _ NegInf = True"
| "num_ge NegInf _ = False"
| "num_ge (Fin x) (Fin y) = (y \<le> x)"

text \<open>\<open>v || 0\<close> on a number: NaN (and zero) become 0.\<close>

fun num_or_zero :: "jsnum \<Rightarrow> jsnum" where
  "num_or_zero NaN = Fin 0"
| "num_or_zero n = n"

subsection \<open>Number to string\<close>

text \<open>
  \<open>Number::toString\<close>: the shortest digit string \<open>s\<close> (\<open>k\<close> digits) and exponent \<open>n\<close>
  with \<open>s * 10^(n - k)\<close> rounding to the value, closest to it when several do. Seventeen
  digits always suffice for a binary64 value.
\<close>

definition num_digits :: "nat \<Rightarrow> jstring" where
  "num_digits n = map ((+) 48) (digits n)"

definition dec_exp :: "rat \<Rightarrow> int" where
  "dec_exp a = (let (p, q) = quotient_of a;
                    e = int (length (digits (nat p))) - int (length (digits (nat q)))
                in if a < pow10 e then e else e + 1)"

definition shortest_at :: "rat \<Rightarrow> nat \<Rightarrow> (nat \<times> int) option" where
  "shortest_at x k =
     (let n = dec_exp x; y = x * pow10 (int k - n); lo = \<lfloor>y\<rfloor>;
          ok = (\<lambda>s. rnd (of_int s * pow10 (n - int k)) = Fin x);
          cand = (if y - of_int lo \<le> 1 / 2 then [lo, lo + 1] else [lo + 1, lo])
      in case filter ok cand of
           [] \<Rightarrow> None
         | s # _ \<Rightarrow> if s = 10 ^ k then Some (10 ^ (k - 1), n + 1) else Some (nat s, n))"

fun shortest_from :: "rat \<Rightarrow> nat list \<Rightarrow> nat \<times> nat \<times> int" where
  "shortest_from x [] = (nat (round_even (x * pow10 (17 - dec_exp x))), 17, dec_exp x)"
| "shortest_from x (k # ks) =
     (case shortest_at x k of Some (s, n) \<Rightarrow> (s, k, n) | None \<Rightarrow> shortest_from x ks)"

definition show_exp :: "int \<Rightarrow> jstring" where
  "show_exp e = (if e < 0 then 45 # num_digits (nat (- e)) else 43 # num_digits (nat e))"

definition show_pos :: "rat \<Rightarrow> jstring" where
  "show_pos x =
     (let (s, k, n) = shortest_from x [1..<18]; ds = num_digits s
      in if int k \<le> n \<and> n \<le> 21 then ds @ replicate (nat n - k) 48
         else if 0 < n \<and> n \<le> 21 then take (nat n) ds @ [46] @ drop (nat n) ds
         else if - 6 < n \<and> n \<le> 0 then [48, 46] @ replicate (nat (- n)) 48 @ ds
         else if k = 1 then ds @ [101] @ show_exp (n - 1)
         else take 1 ds @ [46] @ drop 1 ds @ [101] @ show_exp (n - 1))"

fun num_to_string :: "jsnum \<Rightarrow> jstring" where
  "num_to_string NaN = js ''NaN''"
| "num_to_string PosInf = js ''Infinity''"
| "num_to_string NegInf = js ''-Infinity''"
| "num_to_string (Fin x) =
     (if x = 0 then [48] else if x < 0 then 45 # show_pos (- x) else show_pos x)"

subsection \<open>String to number\<close>

definition is_js_space :: "nat \<Rightarrow> bool" where
  "is_js_space c \<longleftrightarrow>
     c \<in> set [9, 10, 11, 12, 13, 32, 0xA0, 0x1680, 0x2028, 0x2029, 0x202F, 0x205F, 0x3000, 0xFEFF]
     \<or> (0x2000 \<le> c \<and> c \<le> 0x200A)"

definition js_trim :: "jstring \<Rightarrow> jstring" where
  "js_trim s = rev (dropWhile is_js_space (rev (dropWhile is_js_space s)))"

definition is_digit :: "nat \<Rightarrow> bool" where
  "is_digit c \<longleftrightarrow> 48 \<le> c \<and> c \<le> 57"

definition digit_val :: "nat \<Rightarrow> nat option" where
  "digit_val c =
     (if 48 \<le> c \<and> c \<le> 57 then Some (c - 48)
      else if 97 \<le> c \<and> c \<le> 122 then Some (c - 87)
      else if 65 \<le> c \<and> c \<le> 90 then Some (c - 55)
      else None)"

fun radix_val :: "nat \<Rightarrow> nat \<Rightarrow> jstring \<Rightarrow> nat option" where
  "radix_val b acc [] = Some acc"
| "radix_val b acc (c # cs) =
     (case digit_val c of
        Some d \<Rightarrow> if d < b then radix_val b (b * acc + d) cs else None
      | None \<Rightarrow> None)"

definition radix_num :: "nat \<Rightarrow> jstring \<Rightarrow> jsnum" where
  "radix_num b cs =
     (if cs = [] then NaN
      else case radix_val b 0 cs of Some n \<Rightarrow> rnd (of_nat n) | None \<Rightarrow> NaN)"

fun exp_part :: "jstring \<Rightarrow> int option" where
  "exp_part [] = Some 0"
| "exp_part (c # cs) =
     (if c = 101 \<or> c = 69
      then let neg = (case cs of d # _ \<Rightarrow> d = 45 | [] \<Rightarrow> False);
               ds = (case cs of d # r \<Rightarrow> if d = 45 \<or> d = 43 then r else cs | [] \<Rightarrow> [])
           in if ds \<noteq> [] \<and> list_all is_digit ds
              then map_option (\<lambda>n. if neg then - int n else int n) (radix_val 10 0 ds)
              else None
      else None)"

definition unsigned_num :: "jstring \<Rightarrow> rat option" where
  "unsigned_num s =
     (let ip = takeWhile is_digit s; r1 = dropWhile is_digit s;
          fp = (case r1 of c # r \<Rightarrow> if c = 46 then takeWhile is_digit r else [] | [] \<Rightarrow> []);
          r2 = (case r1 of c # r \<Rightarrow> if c = 46 then dropWhile is_digit r else r1 | [] \<Rightarrow> [])
      in if ip = [] \<and> fp = [] then None
         else case (radix_val 10 0 (ip @ fp), exp_part r2) of
                (Some n, Some e) \<Rightarrow> Some (of_nat n * pow10 (e - int (length fp)))
              | _ \<Rightarrow> None)"

definition decimal_num :: "jstring \<Rightarrow> jsnum" where
  "decimal_num s =
     (let neg = (case s of c # _ \<Rightarrow> c = 45 | [] \<Rightarrow> False);
          u = (case s of c # r \<Rightarrow> if c = 45 \<or> c = 43 then r else s | [] \<Rightarrow> [])
      in if u = js ''Infinity'' then (if neg then NegInf else PosInf)
         else case unsigned_num u of
                Some x \<Rightarrow> rnd (if neg then - x else x)
              | None \<Rightarrow> NaN)"

definition string_to_num :: "jstring \<Rightarrow> jsnum" where
  "string_to_num s =
     (let t = js_trim s
      in if t = [] then Fin 0
         else case t of
           c # d # r \<Rightarrow>
             (if c = 48 \<and> (d = 120 \<or> d = 88) then radix_num 16 r
              else if c = 48 \<and> (d = 111 \<or> d = 79) then radix_num 8 r
              else if c = 48 \<and> (d = 98 \<or> d = 66) then radix_num 2 r
              else decimal_num t)
         | _ \<Rightarrow> decimal_num t)"

subsection \<open>JSON values\<close>

text \<open>
  Data that reaches the module through the console client is parsed JSON. \<open>JFun\<close> is a
  built-in function found on \<open>Object.prototype\<close> (only the counter table of the console
  page can read one). Objects list their own properties in creation order.
\<close>

datatype jsval = JUndef | JNull | JBool bool | JNum jsnum | JStr jstring
  | JArr "jsval list" | JObj "(jstring \<times> jsval) list" | JFun jstring

text \<open>
  Exceptions and rejection reasons: an engine-made TypeError (its text is the engine's), an
  \<open>Error\<close> object with its message, or any other value.
\<close>

datatype jserr = TypeErr | ErrObj jstring | Thrown jsval

type_synonym 'a jres = "jserr + 'a"

fun nullish :: "jsval \<Rightarrow> bool" where
  "nullish JUndef = True"
| "nullish JNull = True"
| "nullish _ = False"

definition coalesce :: "jsval \<Rightarrow> jsval \<Rightarrow> jsval" where
  "coalesce v d = (if nullish v then d else v)"

definition js_int :: "int \<Rightarrow> jsval" where
  "js_int n = JNum (Fin (of_int n))"

text \<open>
  \<open>v.k\<close> for the property names the module reads, none of which is defined on a built-in
  prototype: null and undefined throw, other values without an own \<open>k\<close> give undefined.
\<close>

fun get_prop :: "jsval \<Rightarrow> jstring \<Rightarrow> jsval jres" where
  "get_prop JUndef k = Inl TypeErr"
| "get_prop JNull k = Inl TypeErr"
| "get_prop (JObj ps) k = Inr (case map_of ps k of Some v \<Rightarrow> v | None \<Rightarrow> JUndef)"
| "get_prop _ k = Inr JUndef"

text \<open>The own enumerable properties a spread \<open>...v\<close> copies.\<close>

fun spread_props :: "jsval \<Rightarrow> (jstring \<times> jsval) list" where
  "spread_props (JObj ps) = ps"
| "spread_props (JArr vs) = map (\<lambda>i. (num_digits i, vs ! i)) [0..<length vs]"
| "spread_props (JStr s) = map (\<lambda>i. (num_digits i, JStr [s ! i])) [0..<length s]"
| "spread_props _ = []"

definition spread_onto :: "(jstring \<times> jsval) list \<Rightarrow> jsval \<Rightarrow> (jstring \<times> jsval) list" where
  "spread_onto base v = fold (\<lambda>(k, x) m. AList.update k x m) (spread_props v) base"

subsection \<open>String(v), Number(v)\<close>

text \<open>
  A plain object converts through \<open>Object.prototype.toString\<close>; one with an own
  \<open>toString\<close> property (never callable, being data) converts to no primitive and throws.
  Arrays join their elements with commas, null and undefined elements being empty.
\<close>

definition join_comma :: "jstring list \<Rightarrow> jstring" where
  "join_comma xs = (case xs of [] \<Rightarrow> [] | y # ys \<Rightarrow> y @ concat (map (\<lambda>z. 44 # z) ys))"

fun to_str :: "jsval \<Rightarrow> jstring jres"
  and elems_str :: "jsval list \<Rightarrow> jstring list jres" where
  "to_str JUndef = Inr (js ''undefined'')"
| "to_str JNull = Inr (js ''null'')"
| "to_str (JBool b) = Inr (if b then js ''true'' else js ''false'')"
| "to_str (JNum n) = Inr (num_to_string n)"
| "to_str (JStr s) = Inr s"
| "to_str (JFun f) = Inr (js ''function '' @ f @ js ''() { [native code] }'')"
| "to_str (JObj ps) =
     (if map_of ps (js ''toString'') = None then Inr (js ''[object Object]'') else Inl TypeErr)"
| "to_str (JArr vs) = bindE (elems_str vs) (\<lambda>ss. Inr (join_comma ss))"
| "elems_str [] = Inr []"
| "elems_str (v # vs) =
     bindE (if nullish v then Inr [] else to_str v)
       (\<lambda>s. bindE (elems_str vs) (\<lambda>ss. Inr (s # ss)))"

fun to_num :: "jsval \<Rightarrow> jsnum jres" where
  "to_num JUndef = Inr NaN"
| "to_num JNull = Inr (Fin 0)"
| "to_num (JBool b) = Inr (Fin (if b then 1 else 0))"
| "to_num (JNum n) = Inr n"
| "to_num (JStr s) = Inr (string_to_num s)"
| "to_num v = bindE (to_str v) (\<lambda>s. Inr (string_to_num s))"

text \<open>\<open>v + 1\<close>: a number is incremented, anything that converts to a string is concatenated.\<close>

fun add_one :: "jsval \<Rightarrow> jsval jres" where
  "add_one (JNum n) = Inr (JNum (num_add n (Fin 1)))"
| "add_one JUndef = Inr (JNum NaN)"
| "add_one JNull = Inr (JNum (Fin 1))"
| "add_one (JBool b) = Inr (JNum (Fin (if b then 2 else 1)))"
| "add_one v = bindE (to_str v) (\<lambda>s. Inr (JStr (s @ [49])))"

text \<open>
  \<open>err instanceof Error ? err.message : String(err)\<close>; \<open>tm\<close> is the engine's TypeError text.
  The conversion of a thrown object can itself throw.
\<close>

fun error_text :: "jstring \<Rightarrow> jserr \<Rightarrow> jstring jres" where
  "error_text tm TypeErr = Inr tm"
| "error_text tm (ErrObj m) = Inr m"
| "error_text tm (Thrown v) = to_str v"

subsection \<open>Facts the components use\<close>

lemma bitlen_bounds: "0 < n \<Longrightarrow> 2 ^ (bitlen n - 1) \<le> n \<and> n < 2 ^ bitlen n"
proof (induction n rule: bitlen.induct)
  case (1 n)
  show ?case
  proof (cases "n div 2 = 0")
    case True
    with "1.prems" have "n = 1" by auto
    then show ?thesis by (simp add: bitlen.simps [of "Suc 0"] bitlen.simps [of 0])
  next
    case False
    with "1" have IH: "2 ^ (bitlen (n div 2) - 1) \<le> n div 2" "n div 2 < 2 ^ bitlen (n div 2)"
      by auto
    from False have "0 < bitlen (n div 2)" by (subst bitlen.simps) simp
    then obtain m where m: "bitlen (n div 2) = Suc m" by (cases "bitlen (n div 2)") auto
    from IH m have "2 * 2 ^ m \<le> n" "n < 2 * 2 ^ Suc m" by auto
    with m "1.prems" show ?thesis by (simp add: bitlen.simps [of n])
  qed
qed

lemma bitlen_pos: "0 < n \<Longrightarrow> 0 < bitlen n"
  by (subst bitlen.simps) simp

lemma ilog2_of_int:
  assumes "0 < n"
  shows "ilog2 (of_int n) = int (bitlen (nat n)) - 1"
proof -
  have q: "quotient_of (rat_of_int n) = (n, 1)" by simp
  have "2 ^ (bitlen (nat n) - 1) \<le> nat n"
    using bitlen_bounds [of "nat n"] assms by simp
  then have "int (2 ^ (bitlen (nat n) - 1)) \<le> n" using assms by linarith
  then have le: "(2::rat) ^ (bitlen (nat n) - 1) \<le> of_int n"
    by (metis of_int_le_iff of_int_numeral of_int_power of_nat_numeral of_nat_power)
  have p: "0 < bitlen (nat n)" using assms by (simp add: bitlen_pos)
  then have "pow2 (int (bitlen (nat n)) - 1) = 2 ^ (bitlen (nat n) - 1)"
    by (simp add: pow2_def nat_diff_distrib)
  with le p show ?thesis
    by (simp add: ilog2_def q bitlen.simps [of "Suc 0"] bitlen.simps [of 0] Let_def)
qed

lemma round_even_of_int [simp]: "round_even (of_int k) = k"
  by (simp add: round_even_def)

lemma pow2_neg: "0 \<le> k \<Longrightarrow> pow2 (- k) = 1 / 2 ^ nat k"
  by (auto simp: pow2_def)

text \<open>Integers below \<open>2^53\<close> in absolute value are exact.\<close>

lemma rnd_pos_int:
  assumes "0 < n" "n < 2 ^ 53"
  shows "rnd (of_int n) = Fin (of_int n)"
proof -
  define b where "b = bitlen (nat n)"
  have "2 ^ (b - 1) \<le> nat n" using bitlen_bounds [of "nat n"] assms by (simp add: b_def)
  also have "nat n < 2 ^ 53" using assms by simp
  finally have "(2::nat) ^ (b - 1) < 2 ^ 53" .
  then have b: "b - 1 < 53" by (rule power_less_imp_less_exp [rotated]) simp
  have b0: "0 < b" using assms by (simp add: b_def bitlen_pos)
  define k where "k = nat (53 - int b)"
  have q: "max (ilog2 (of_int n) - 52) (- 1074) = - int k"
    using b b0 by (simp add: ilog2_of_int [OF assms(1)] k_def flip: b_def)
  have "rat_of_int n / pow2 (- int k) = of_int (n * 2 ^ k)"
    by (simp add: pow2_neg)
  then have r: "of_int (round_even (rat_of_int n / pow2 (- int k))) * pow2 (- int k) = rat_of_int n"
    by (simp only: round_even_of_int) (simp add: pow2_neg)
  have "rat_of_int n < of_int (2 ^ 53)" using assms(2) by (simp only: of_int_less_iff)
  also have "of_int (2 ^ 53) \<le> (2::rat) ^ 1024" by (simp add: power_increasing)
  finally have "\<not> pow2 1024 \<le> rat_of_int n" by (simp add: pow2_def)
  with assms q r show ?thesis by (simp add: rnd_def Let_def)
qed

lemma rnd_neg: "0 < x \<Longrightarrow> rnd x = Fin y \<Longrightarrow> rnd (- x) = Fin (- y)"
  by (simp add: rnd_def Let_def split: if_splits)

lemma rnd_of_int:
  assumes "\<bar>n\<bar> < 2 ^ 53"
  shows "rnd (of_int n) = Fin (of_int n)"
proof (cases "n = 0")
  case True
  then show ?thesis by (simp add: rnd_def)
next
  case False
  show ?thesis
  proof (cases "0 < n")
    case True
    with assms show ?thesis by (simp add: rnd_pos_int)
  next
    case neg: False
    with False assms have "rnd (of_int (- n)) = Fin (of_int (- n))"
      by (intro rnd_pos_int) auto
    with neg False have "rnd (- of_int (- n)) = Fin (- of_int (- n))"
      by (intro rnd_neg) auto
    then show ?thesis by simp
  qed
qed

lemma rnd_of_nat [simp]: "n < 9007199254740992 \<Longrightarrow> rnd (of_nat n) = Fin (of_nat n)"
  using rnd_of_int [of "int n"] by simp

lemma num_add_int:
  assumes "\<bar>a + b\<bar> < 2 ^ 53"
  shows "num_add (Fin (of_int a)) (Fin (of_int b)) = Fin (of_int (a + b))"
  using rnd_of_int [OF assms] by simp

lemma get_prop_obj: "get_prop (JObj ps) k = Inr (case map_of ps k of Some v \<Rightarrow> v | None \<Rightarrow> JUndef)"
  by simp

lemma get_prop_not_nullish: "\<not> nullish v \<Longrightarrow> \<exists>w. get_prop v k = Inr w"
  by (cases v) auto

lemma get_prop_nullish: "nullish v \<Longrightarrow> get_prop v k = Inl TypeErr"
  by (cases v) auto

lemma num_or_zero_Fin [simp]: "num_or_zero (Fin x) = Fin x"
  by simp

lemma map_of_fold_update:
  "map_of (fold (\<lambda>(k, x) m. AList.update k x m) ps base) k =
     (case map_of (rev ps) k of Some v \<Rightarrow> Some v | None \<Rightarrow> map_of base k)"
  by (induction ps arbitrary: base)
    (auto simp: update_conv' map_add_def split: option.splits)

lemma map_of_rev_wf: "wf_map ps \<Longrightarrow> map_of (rev ps) = map_of ps"
  by (rule map_of_inject_set [THEN iffD2]) (simp_all flip: rev_map)

lemma map_of_spread:
  "wf_map ps \<Longrightarrow> map_of (spread_onto base (JObj ps)) k =
     (case map_of ps k of Some v \<Rightarrow> Some v | None \<Rightarrow> map_of base k)"
  by (simp add: spread_onto_def map_of_fold_update map_of_rev_wf)

end
