(* ===== verification/AlarmLoad.thy ===== *)
theory AlarmLoad
  imports JsValue
begin

text \<open>
  The state of the alarm console page (function AlarmConsole of
  plugins/alarm-demo/src/ui.js and ui.tsx) and its asynchronous operations: \<open>load\<close>, whose
  three hub queries settle in any order and whose \<open>then\<close>, \<open>catch\<close> and \<open>finally\<close> callbacks
  run as separate microtasks, and \<open>trigger\<close>. Any number of loads can be in flight; the
  page is a list of them beside the React state. The two versions of the page differ in how
  a row of the first query becomes an alarm, which is the parameter \<open>row\<close>.
\<close>

subsection \<open>State\<close>

text \<open>
  A query of \<open>Promise.all\<close> is waiting (\<open>None\<close>) or has resolved. The first rejection
  rejects the whole; later settlements are ignored.
\<close>

datatype query_name = QAlarms | QCollections | QSchedule

datatype load_phase =
    Querying "jsval option" "jsval option" "jsval option"
  | ThenDue jsval jsval jsval
  | CatchDue jserr
  | FinallyDue
  | LoadDone

datatype trigger_phase = TriggerWait | TriggerFinallyDue | TriggerDone

record ui =
  ui_alarms :: "jsval list"
  ui_collections :: "jsval list"
  ui_schedule :: jsval
  ui_loading :: bool
  ui_error :: "jstring option"
  ui_busy :: bool
  ui_loads :: "load_phase list"
  ui_triggers :: "trigger_phase list"

definition initial_ui :: ui where
  "initial_ui = \<lparr>ui_alarms = [], ui_collections = [], ui_schedule = JObj [], ui_loading = True,
     ui_error = None, ui_busy = False, ui_loads = [], ui_triggers = []\<rparr>"

subsection \<open>The handlers\<close>

definition start_load :: "ui \<Rightarrow> ui" where
  "start_load s = s\<lparr>ui_loading := True, ui_loads := ui_loads s @ [Querying None None None]\<rparr>"

definition mount :: ui where
  "mount = start_load initial_ui"

definition all_settled :: "jsval option \<Rightarrow> jsval option \<Rightarrow> jsval option \<Rightarrow> load_phase" where
  "all_settled a c d =
     (case (a, c, d) of (Some x, Some y, Some z) \<Rightarrow> ThenDue x y z | _ \<Rightarrow> Querying a c d)"

fun waiting :: "query_name \<Rightarrow> load_phase \<Rightarrow> bool" where
  "waiting q (Querying a c d) =
     (case q of QAlarms \<Rightarrow> a = None | QCollections \<Rightarrow> c = None | QSchedule \<Rightarrow> d = None)"
| "waiting q _ = False"

fun answered :: "query_name \<Rightarrow> jsval \<Rightarrow> load_phase \<Rightarrow> load_phase" where
  "answered q v (Querying a c d) =
     (case q of QAlarms \<Rightarrow> all_settled (Some v) c d
      | QCollections \<Rightarrow> all_settled a (Some v) d
      | QSchedule \<Rightarrow> all_settled a c (Some v))"
| "answered q v p = p"

definition settle :: "query_name \<Rightarrow> jsval jres \<Rightarrow> load_phase \<Rightarrow> load_phase" where
  "settle q r p =
     (if waiting q p then (case r of Inl e \<Rightarrow> CatchDue e | Inr v \<Rightarrow> answered q v p) else p)"

fun arr_elems :: "jsval \<Rightarrow> jsval list" where
  "arr_elems (JArr vs) = vs"
| "arr_elems _ = []"

text \<open>
  The \<open>then\<close> callback. The rows are computed before the first \<open>set\<close> call, so a row that
  throws leaves every field alone and the promise goes on to \<open>catch\<close>.
\<close>

definition alarm_rows :: "(nat \<Rightarrow> jsval \<Rightarrow> jsval jres) \<Rightarrow> jsval \<Rightarrow> jsval list jres" where
  "alarm_rows row v = mapE (\<lambda>(i, f). row i f) (enumerate 0 (arr_elems v))"

definition load_then ::
  "(nat \<Rightarrow> jsval \<Rightarrow> jsval jres) \<Rightarrow> jsval \<Rightarrow> jsval \<Rightarrow> jsval \<Rightarrow> ui \<Rightarrow> ui \<times> load_phase" where
  "load_then row a c d s =
     (case alarm_rows row a of
        Inl e \<Rightarrow> (s, CatchDue e)
      | Inr rows \<Rightarrow>
          (s\<lparr>ui_alarms := rows, ui_collections := arr_elems c,
             ui_schedule := coalesce d (JObj []), ui_error := None\<rparr>, FinallyDue))"

text \<open>The \<open>catch\<close> callback; \<open>tm\<close> is the engine's text of a TypeError.\<close>

definition load_catch :: "jstring \<Rightarrow> jserr \<Rightarrow> ui \<Rightarrow> ui" where
  "load_catch tm e s =
     (case error_text tm e of Inl _ \<Rightarrow> s | Inr t \<Rightarrow> s\<lparr>ui_error := Some t\<rparr>)"

definition load_finally :: "ui \<Rightarrow> ui" where
  "load_finally s = s\<lparr>ui_loading := False\<rparr>"

definition set_phase :: "nat \<Rightarrow> load_phase \<Rightarrow> ui \<Rightarrow> ui" where
  "set_phase j p s = s\<lparr>ui_loads := (ui_loads s)[j := p]\<rparr>"

definition settle_at :: "nat \<Rightarrow> query_name \<Rightarrow> jsval jres \<Rightarrow> ui \<Rightarrow> ui" where
  "settle_at j q r s = set_phase j (settle q r (ui_loads s ! j)) s"

fun run_callback :: "(nat \<Rightarrow> jsval \<Rightarrow> jsval jres) \<Rightarrow> jstring \<Rightarrow> load_phase \<Rightarrow> ui \<Rightarrow> ui \<times> load_phase"
where
  "run_callback row tm (ThenDue a c d) s = load_then row a c d s"
| "run_callback row tm (CatchDue e) s = (load_catch tm e s, FinallyDue)"
| "run_callback row tm FinallyDue s = (load_finally s, LoadDone)"
| "run_callback row tm p s = (s, p)"

definition callback_at ::
  "(nat \<Rightarrow> jsval \<Rightarrow> jsval jres) \<Rightarrow> jstring \<Rightarrow> nat \<Rightarrow> ui \<Rightarrow> ui" where
  "callback_at row tm j s =
     (let (s', p) = run_callback row tm (ui_loads s ! j) s in set_phase j p s')"

text \<open>
  \<open>trigger\<close>: the command's rejection is swallowed, so both outcomes lead to \<open>finally\<close>.
\<close>

definition start_trigger :: "ui \<Rightarrow> ui" where
  "start_trigger s = s\<lparr>ui_busy := True, ui_triggers := ui_triggers s @ [TriggerWait]\<rparr>"

fun run_trigger :: "trigger_phase \<Rightarrow> ui \<Rightarrow> ui \<times> trigger_phase" where
  "run_trigger TriggerWait s = (s, TriggerFinallyDue)"
| "run_trigger TriggerFinallyDue s = (s\<lparr>ui_busy := False\<rparr>, TriggerDone)"
| "run_trigger TriggerDone s = (s, TriggerDone)"

definition trigger_at :: "nat \<Rightarrow> ui \<Rightarrow> ui" where
  "trigger_at j s =
     (let (s', p) = run_trigger (ui_triggers s ! j) s
      in s'\<lparr>ui_triggers := (ui_triggers s')[j := p]\<rparr>)"

subsection \<open>Steps and reachable states\<close>

text \<open>
  \<open>guarded\<close> says that a button ignores clicks while its \<open>loading\<close> property is set, which is
  what the antd Button does: the reload button has \<open>loading={loading}\<close>, the trigger button
  \<open>loading={busy}\<close>.
\<close>

inductive ui_step ::
  "bool \<Rightarrow> (nat \<Rightarrow> jsval \<Rightarrow> jsval jres) \<Rightarrow> jstring \<Rightarrow> ui \<Rightarrow> ui \<Rightarrow> bool"
  for guarded row tm where
  click_load: "\<not> (guarded \<and> ui_loading s) \<Longrightarrow> ui_step guarded row tm s (start_load s)"
| query_settles: "j < length (ui_loads s) \<Longrightarrow>
    ui_step guarded row tm s (settle_at j q r s)"
| callback: "j < length (ui_loads s) \<Longrightarrow> ui_step guarded row tm s (callback_at row tm j s)"
| click_trigger: "\<not> (guarded \<and> ui_busy s) \<Longrightarrow> ui_step guarded row tm s (start_trigger s)"
| trigger_moves: "j < length (ui_triggers s) \<Longrightarrow> ui_step guarded row tm s (trigger_at j s)"

inductive ui_reach ::
  "bool \<Rightarrow> (nat \<Rightarrow> jsval \<Rightarrow> jsval jres) \<Rightarrow> jstring \<Rightarrow> ui \<Rightarrow> bool"
  for guarded row tm where
  mounted: "ui_reach guarded row tm mount"
| stepped: "ui_reach guarded row tm s \<Longrightarrow> ui_step guarded row tm s t \<Longrightarrow>
    ui_reach guarded row tm t"

inductive_cases ui_stepE: "ui_step guarded row tm s t"

lemmas handler_defs = start_load_def set_phase_def settle_at_def callback_at_def load_then_def
  load_catch_def load_finally_def start_trigger_def trigger_at_def

subsection \<open>One load at a time\<close>

abbreviation active_loads :: "ui \<Rightarrow> nat" where
  "active_loads s \<equiv> length (filter (\<lambda>p. p \<noteq> LoadDone) (ui_loads s))"

abbreviation active_triggers :: "ui \<Rightarrow> nat" where
  "active_triggers s \<equiv> length (filter (\<lambda>p. p \<noteq> TriggerDone) (ui_triggers s))"

definition ui_inv :: "ui \<Rightarrow> bool" where
  "ui_inv s \<longleftrightarrow> active_loads s = (if ui_loading s then 1 else 0)
     \<and> active_triggers s = (if ui_busy s then 1 else 0)"

lemma filter_update_same:
  "j < length xs \<Longrightarrow> P p \<longleftrightarrow> P (xs ! j) \<Longrightarrow>
     length (filter P (xs[j := p])) = length (filter P xs)"
proof (induction xs arbitrary: j)
  case (Cons x xs)
  then show ?case by (cases j) auto
qed simp

lemma filter_update_drop:
  "j < length xs \<Longrightarrow> P (xs ! j) \<Longrightarrow> \<not> P p \<Longrightarrow>
     Suc (length (filter P (xs[j := p]))) = length (filter P xs)"
proof (induction xs arbitrary: j)
  case (Cons x xs)
  then show ?case by (cases j) auto
qed simp

lemma all_settled_LoadDone [simp]: "all_settled a c d \<noteq> LoadDone"
  by (simp add: all_settled_def split: option.split)

lemma settle_LoadDone: "settle q r p = LoadDone \<longleftrightarrow> p = LoadDone"
  by (cases p) (simp_all add: settle_def split: sum.split query_name.split)

lemma settle_at_frame:
  "j < length (ui_loads s) \<Longrightarrow>
     active_loads (settle_at j q r s) = active_loads s \<and> ui_loading (settle_at j q r s) = ui_loading s
     \<and> ui_triggers (settle_at j q r s) = ui_triggers s \<and> ui_busy (settle_at j q r s) = ui_busy s"
  by (simp add: handler_defs filter_update_same settle_LoadDone)

lemma callback_at_frame:
  "ui_triggers (callback_at row tm j s) = ui_triggers s \<and> ui_busy (callback_at row tm j s) = ui_busy s"
  by (cases "ui_loads s ! j") (auto simp: handler_defs split: sum.splits)

lemma run_callback_phase:
  assumes "run_callback row tm p s = (s', q)"
  shows "q = LoadDone \<longleftrightarrow> p = FinallyDue \<or> p = LoadDone"
    and "ui_loading s' \<longleftrightarrow> (p \<noteq> FinallyDue \<and> ui_loading s)"
    and "ui_loads s' = ui_loads s"
  using assms by (cases p; auto simp: handler_defs split: sum.splits)+

lemma callback_at_inv:
  assumes j: "j < length (ui_loads s)" and inv: "ui_inv s"
  shows "ui_inv (callback_at row tm j s)"
proof -
  let ?xs = "ui_loads s" and ?P = "\<lambda>p. p \<noteq> LoadDone"
  obtain s' q where r: "run_callback row tm (?xs ! j) s = (s', q)" by fastforce
  have c: "callback_at row tm j s = set_phase j q s'" by (simp add: callback_at_def r)
  have n: "length (filter ?P (?xs[j := q]))
      = (if ?xs ! j = FinallyDue then length (filter ?P ?xs) - 1 else length (filter ?P ?xs))"
  proof (cases "?xs ! j = FinallyDue")
    case True
    then have "Suc (length (filter ?P (?xs[j := q]))) = length (filter ?P ?xs)"
      by (intro filter_update_drop) (simp_all add: j run_callback_phase(1) [OF r])
    with True show ?thesis by simp
  next
    case False
    then show ?thesis by (simp add: filter_update_same j run_callback_phase(1) [OF r])
  qed
  show ?thesis
    using inv n run_callback_phase [OF r] callback_at_frame [of row tm j s]
    unfolding c ui_inv_def by (auto simp: set_phase_def)
qed

lemma trigger_at_inv:
  assumes "j < length (ui_triggers s)" "ui_inv s"
  shows "ui_inv (trigger_at j s)"
proof (cases "ui_triggers s ! j")
  case TriggerFinallyDue
  then have "Suc (length (filter (\<lambda>p. p \<noteq> TriggerDone) ((ui_triggers s)[j := TriggerDone])))
      = active_triggers s"
    by (intro filter_update_drop) (simp_all add: assms(1))
  with TriggerFinallyDue assms(2) show ?thesis
    by (auto simp: ui_inv_def trigger_at_def split: if_splits)
qed (use assms in \<open>auto simp: ui_inv_def handler_defs filter_update_same\<close>)

lemma ui_step_inv: "ui_step True row tm s t \<Longrightarrow> ui_inv s \<Longrightarrow> ui_inv t"
proof (induction rule: ui_step.induct)
  case (query_settles j s q r)
  then show ?case using settle_at_frame [of j s q r] by (simp add: ui_inv_def)
qed (auto simp: callback_at_inv trigger_at_inv, auto simp: ui_inv_def handler_defs)

lemma mount_inv: "ui_inv mount"
  by (simp add: ui_inv_def mount_def initial_ui_def handler_defs)

lemma ui_reach_inv: "ui_reach True row tm s \<Longrightarrow> ui_inv s"
  by (induction rule: ui_reach.induct) (auto simp: mount_inv intro: ui_step_inv)

subsection \<open>A whole load\<close>

text \<open>One load run to its end: the three settlements, then the callbacks that are due.\<close>

definition run_load ::
  "(nat \<Rightarrow> jsval \<Rightarrow> jsval jres) \<Rightarrow> jstring \<Rightarrow> jsval jres \<Rightarrow> jsval jres \<Rightarrow> jsval jres \<Rightarrow> ui \<Rightarrow> ui"
where
  "run_load row tm ra rc rd s =
     (let j = length (ui_loads s);
          s1 = settle_at j QAlarms ra (start_load s);
          s2 = settle_at j QCollections rc s1;
          s3 = settle_at j QSchedule rd s2;
          s4 = callback_at row tm j s3;
          s5 = callback_at row tm j s4
      in callback_at row tm j s5)"

lemmas run_load_simps = run_load_def handler_defs settle_def all_settled_def nth_append

lemma run_load_ok:
  assumes "alarm_rows row a = Inr rows"
  shows "run_load row tm (Inr a) (Inr c) (Inr d) s =
    s\<lparr>ui_alarms := rows, ui_collections := arr_elems c, ui_schedule := coalesce d (JObj []),
      ui_error := None, ui_loading := False, ui_loads := ui_loads s @ [LoadDone]\<rparr>"
  using assms by (simp add: run_load_simps)

text \<open>
  The same with the queries settling in any order; a callback of a load that is done changes
  nothing, so three callbacks are enough for every way a load can go.
\<close>

definition load_in_order ::
  "(nat \<Rightarrow> jsval \<Rightarrow> jsval jres) \<Rightarrow> jstring \<Rightarrow> (query_name \<times> jsval jres) list \<Rightarrow> ui \<Rightarrow> ui"
where
  "load_in_order row tm qs s =
     (let j = length (ui_loads s)
      in (callback_at row tm j ^^ 3) (fold (\<lambda>(q, r). settle_at j q r) qs (start_load s)))"

lemma run_load_in_order:
  "run_load row tm ra rc rd s = load_in_order row tm [(QAlarms, ra), (QCollections, rc), (QSchedule, rd)] s"
  by (simp add: run_load_def load_in_order_def Let_def numeral_3_eq_3)

text \<open>
  Why a load fails: the first rejection in the order of settlement, or else the first row of the
  first query's answer that cannot be built.
\<close>

fun first_rejection :: "(query_name \<times> jsval jres) list \<Rightarrow> jserr option" where
  "first_rejection [] = None"
| "first_rejection ((q, r) # qs) = (case r of Inl e \<Rightarrow> Some e | Inr _ \<Rightarrow> first_rejection qs)"

definition load_failure ::
  "(nat \<Rightarrow> jsval \<Rightarrow> jsval jres) \<Rightarrow> (query_name \<times> jsval jres) list \<Rightarrow> jserr option"
where
  "load_failure row qs =
     (case first_rejection qs of
        Some e \<Rightarrow> Some e
      | None \<Rightarrow>
          (case map_of qs QAlarms of
             Some (Inr a) \<Rightarrow> (case alarm_rows row a of Inl e \<Rightarrow> Some e | Inr _ \<Rightarrow> None)
           | _ \<Rightarrow> None))"

abbreviation settled :: "(query_name \<times> jsval jres) list \<Rightarrow> load_phase \<Rightarrow> load_phase" where
  "settled qs p \<equiv> fold (\<lambda>(q, r). settle q r) qs p"

lemma fold_settle_at:
  "j < length (ui_loads s) \<Longrightarrow>
     fold (\<lambda>(q, r). settle_at j q r) qs s = set_phase j (settled qs (ui_loads s ! j)) s"
  by (induction qs arbitrary: s) (auto simp: settle_at_def set_phase_def)

lemma settled_idle: "(\<And>q. \<not> waiting q p) \<Longrightarrow> settled qs p = p"
  by (induction qs) (auto simp: settle_def)

lemma settled_rejected:
  "distinct (map fst qs) \<Longrightarrow> \<forall>q \<in> fst ` set qs. waiting q p \<Longrightarrow> first_rejection qs = Some e \<Longrightarrow>
     settled qs p = CatchDue e"
proof (induction qs arbitrary: p)
  case (Cons x qs)
  obtain q r where x: "x = (q, r)" by fastforce
  show ?case
  proof (cases r)
    case (Inl e')
    then have "settle q r p = CatchDue e'" using Cons.prems(2) by (simp add: x settle_def)
    with Cons.prems(3) show ?thesis by (simp add: x Inl settled_idle)
  next
    case (Inr v)
    have w: "waiting q p" using Cons.prems(2) by (simp add: x)
    have "\<forall>q' \<in> fst ` set qs. waiting q' (settle q r p)"
    proof
      fix q' assume q': "q' \<in> fst ` set qs"
      then have "q' \<noteq> q" using Cons.prems(1) by (auto simp: x)
      moreover have "waiting q' p" using Cons.prems(2) q' by (auto simp: x)
      ultimately show "waiting q' (settle q r p)" using w
        by (cases p) (auto simp: settle_def Inr all_settled_def split: query_name.splits option.splits)
    qed
    from Cons.IH [OF _ this] Cons.prems(1,3) show ?thesis by (simp add: x Inr)
  qed
qed simp

lemma settled_resolved:
  assumes "distinct (map fst qs)" "length qs = 3" "first_rejection qs = None"
  shows "\<exists>a c d. settled qs (Querying None None None) = ThenDue a c d \<and> map_of qs QAlarms = Some (Inr a)"
proof -
  obtain q1 r1 q2 r2 q3 r3 where qs: "qs = [(q1, r1), (q2, r2), (q3, r3)]"
    using assms(2) by (auto simp: length_Suc_conv numeral_3_eq_3)
  obtain v1 v2 v3 where r: "r1 = Inr v1" "r2 = Inr v2" "r3 = Inr v3"
    using assms(3) unfolding qs by (auto split: sum.splits)
  have d: "q1 \<noteq> q2" "q1 \<noteq> q3" "q2 \<noteq> q3" using assms(1) by (simp_all add: qs)
  then show ?thesis unfolding qs r
    by (cases q1; cases q2; cases q3) (simp_all add: settle_def all_settled_def)
qed

lemma load_in_order_fails:
  assumes "distinct (map fst qs)" "length qs = 3" "load_failure row qs = Some e"
  shows "load_in_order row tm qs s =
    s\<lparr>ui_error := (case error_text tm e of Inr t \<Rightarrow> Some t | Inl _ \<Rightarrow> ui_error s),
      ui_loading := False, ui_loads := ui_loads s @ [LoadDone]\<rparr>"
proof -
  let ?j = "length (ui_loads s)" and ?p = "settled qs (Querying None None None)"
  have run: "load_in_order row tm qs s = (callback_at row tm ?j ^^ 3) (set_phase ?j ?p (start_load s))"
    by (simp add: load_in_order_def fold_settle_at start_load_def nth_append Let_def)
  show ?thesis
  proof (cases "first_rejection qs")
    case (Some e')
    then have "e' = e" using assms(3) by (simp add: load_failure_def)
    moreover have "?p = CatchDue e'" by (rule settled_rejected [OF assms(1) _ Some]) (simp split: query_name.split)
    ultimately show ?thesis unfolding run
      by (cases "error_text tm e") (simp_all add: handler_defs nth_append numeral_3_eq_3)
  next
    case None
    from settled_resolved [OF assms(1,2) None] obtain a c d
      where p: "?p = ThenDue a c d" "map_of qs QAlarms = Some (Inr a)" by blast
    then have "alarm_rows row a = Inl e"
      using assms(3) None by (simp add: load_failure_def split: sum.splits)
    then show ?thesis unfolding run p(1)
      by (cases "error_text tm e") (simp_all add: handler_defs nth_append numeral_3_eq_3)
  qed
qed


subsection \<open>What can change the data shown\<close>

abbreviation shown :: "ui \<Rightarrow> jsval list \<times> jsval list \<times> jsval" where
  "shown s \<equiv> (ui_alarms s, ui_collections s, ui_schedule s)"

definition then_succeeds :: "(nat \<Rightarrow> jsval \<Rightarrow> jsval jres) \<Rightarrow> ui \<Rightarrow> ui \<Rightarrow> bool" where
  "then_succeeds row s t \<longleftrightarrow>
     (\<exists>p \<in> set (ui_loads s). \<exists>a c d rows. p = ThenDue a c d \<and> alarm_rows row a = Inr rows
        \<and> shown t = (rows, arr_elems c, coalesce d (JObj [])) \<and> ui_error t = None)"

lemma callback_at_shown:
  assumes j: "j < length (ui_loads s)" and ne: "shown (callback_at row tm j s) \<noteq> shown s"
  shows "then_succeeds row s (callback_at row tm j s)"
proof (cases "ui_loads s ! j")
  case (ThenDue a c d)
  then have mem: "ThenDue a c d \<in> set (ui_loads s)" using j nth_mem by fastforce
  show ?thesis
  proof (cases "alarm_rows row a")
    case (Inl e)
    with ThenDue ne show ?thesis by (simp add: handler_defs)
  next
    case (Inr rows)
    with ThenDue have "shown (callback_at row tm j s) = (rows, arr_elems c, coalesce d (JObj []))"
      and "ui_error (callback_at row tm j s) = None" by (simp_all add: handler_defs)
    with Inr mem show ?thesis unfolding then_succeeds_def by blast
  qed
qed (use ne in \<open>auto simp: handler_defs split: sum.splits\<close>)

lemma trigger_at_shown: "shown (trigger_at j s) = shown s"
  by (cases "ui_triggers s ! j") (auto simp: handler_defs)

lemma ui_step_shown:
  "ui_step g row tm s t \<Longrightarrow> shown t \<noteq> shown s \<Longrightarrow> then_succeeds row s t"
proof (induction rule: ui_step.induct)
  case (callback j s)
  then show ?case by (intro callback_at_shown)
next
  case (trigger_moves j s)
  then show ?case using trigger_at_shown [of j s] by metis
qed (simp_all add: handler_defs)

subsection \<open>Loads end\<close>

fun can_settle :: "load_phase \<Rightarrow> bool" where
  "can_settle (Querying a c d) \<longleftrightarrow> a = None \<or> c = None \<or> d = None"
| "can_settle _ = True"

abbreviation phases_ok :: "ui \<Rightarrow> bool" where
  "phases_ok s \<equiv> \<forall>p \<in> set (ui_loads s). can_settle p"

lemma can_settle_settle: "can_settle p \<Longrightarrow> can_settle (settle q r p)"
  by (cases p)
    (auto simp: settle_def all_settled_def split: sum.splits query_name.splits option.splits)

lemma can_settle_callback: "can_settle p \<Longrightarrow> can_settle (snd (run_callback row tm p s))"
  by (cases p) (auto simp: handler_defs split: sum.splits)

lemma phases_ok_update:
  "phases_ok s \<Longrightarrow> can_settle p \<Longrightarrow> \<forall>x \<in> set ((ui_loads s)[j := p]). can_settle x"
  using set_update_subset_insert [of "ui_loads s" j p] by auto

lemma ui_step_phases: "ui_step g row tm s t \<Longrightarrow> phases_ok s \<Longrightarrow> phases_ok t"
proof (induction rule: ui_step.induct)
  case (query_settles j s q r)
  then have "can_settle (settle q r (ui_loads s ! j))" by (simp add: can_settle_settle)
  from phases_ok_update [OF query_settles.prems this, of j] show ?case
    by (simp add: settle_at_def set_phase_def)
next
  case (callback j s)
  obtain s' p where r: "run_callback row tm (ui_loads s ! j) s = (s', p)" by fastforce
  from callback have "can_settle p"
    using can_settle_callback [of "ui_loads s ! j" row tm s] r by simp
  from phases_ok_update [OF callback.prems this, of j] show ?case
    by (simp add: callback_at_def r set_phase_def run_callback_phase(3) [OF r])
next
  case (trigger_moves j s)
  then show ?case by (cases "ui_triggers s ! j") (auto simp: trigger_at_def)
qed (auto simp: handler_defs)

lemma ui_reach_phases: "ui_reach g row tm s \<Longrightarrow> phases_ok s"
  by (induction rule: ui_reach.induct)
    (auto simp: mount_def initial_ui_def handler_defs dest: ui_step_phases)

lemma ui_reach_star: "(ui_step g row tm)\<^sup>*\<^sup>* s t \<Longrightarrow> ui_reach g row tm s \<Longrightarrow> ui_reach g row tm t"
  by (induction rule: rtranclp_induct) (auto intro: ui_reach.stepped)

text \<open>
  The steps that are not clicks: answers of the hub, load \<open>j\<close>'s query \<open>q\<close> being answered with
  \<open>ans j q\<close>, and promise callbacks.
\<close>

inductive load_moves ::
  "(nat \<Rightarrow> query_name \<Rightarrow> jsval jres) \<Rightarrow> (nat \<Rightarrow> jsval \<Rightarrow> jsval jres) \<Rightarrow> jstring \<Rightarrow> ui \<Rightarrow> ui \<Rightarrow> bool"
  for ans row tm where
  answers: "j < length (ui_loads s) \<Longrightarrow> load_moves ans row tm s (settle_at j q (ans j q) s)"
| runs: "j < length (ui_loads s) \<Longrightarrow> load_moves ans row tm s (callback_at row tm j s)"

lemma load_moves_step: "load_moves ans row tm s t \<Longrightarrow> ui_step g row tm s t"
  by (induction rule: load_moves.induct) (auto intro: ui_step.intros)

lemma load_moves_steps: "(load_moves ans row tm)\<^sup>*\<^sup>* s t \<Longrightarrow> (ui_step g row tm)\<^sup>*\<^sup>* s t"
  by (induction rule: rtranclp_induct) (auto intro: load_moves_step rtranclp.rtrancl_into_rtrancl)

text \<open>How many steps a load still needs.\<close>

fun phase_rank :: "load_phase \<Rightarrow> nat" where
  "phase_rank (Querying a c d) = 3 + length (filter (\<lambda>x. x = None) [a, c, d])"
| "phase_rank (ThenDue _ _ _) = 3"
| "phase_rank (CatchDue _) = 2"
| "phase_rank FinallyDue = 1"
| "phase_rank LoadDone = 0"

lemma callback_rank:
  "\<not> (\<exists>a c d. p = Querying a c d) \<Longrightarrow> p \<noteq> LoadDone \<Longrightarrow>
     phase_rank (snd (run_callback row tm p s)) < phase_rank p"
  by (cases p) (auto simp: handler_defs split: sum.splits)

lemma waiting_exists: "can_settle (Querying a c d) \<Longrightarrow> \<exists>q. waiting q (Querying a c d)"
  by (metis can_settle.simps(1) query_name.simps(7-9) waiting.simps(1))

lemma settle_rank: "waiting n p \<Longrightarrow> phase_rank (settle n r p) < phase_rank p"
  by (cases p) (auto simp: settle_def all_settled_def split: sum.splits query_name.splits option.splits)

lemma phase_progress:
  assumes j: "j < length (ui_loads s)" and act: "ui_loads s ! j \<noteq> LoadDone"
    and ok: "can_settle (ui_loads s ! j)"
  obtains t p where "load_moves ans row tm s t" "ui_loads t = (ui_loads s)[j := p]"
    "phase_rank p < phase_rank (ui_loads s ! j)"
proof (cases "\<exists>a c d. ui_loads s ! j = Querying a c d")
  case True
  then obtain a c d where q: "ui_loads s ! j = Querying a c d" by blast
  from ok obtain n where "waiting n (ui_loads s ! j)" unfolding q using waiting_exists by blast
  then have "phase_rank (settle n (ans j n) (ui_loads s ! j)) < phase_rank (ui_loads s ! j)"
    by (rule settle_rank)
  with load_moves.answers [OF j, of ans row tm n] show ?thesis
    by (intro that [of _ "settle n (ans j n) (ui_loads s ! j)"]) (auto simp: settle_at_def set_phase_def)
next
  case False
  obtain s' p where r: "run_callback row tm (ui_loads s ! j) s = (s', p)" by fastforce
  have "phase_rank p < phase_rank (ui_loads s ! j)"
    using callback_rank [OF False act, of row tm s] r by simp
  with r load_moves.runs [OF j, of ans row tm] show ?thesis
    by (intro that [of _ p]) (auto simp: callback_at_def set_phase_def run_callback_phase(3) [OF r])
qed

lemma load_can_end:
  "j < length (ui_loads s) \<Longrightarrow> ui_reach g row tm s \<Longrightarrow>
     \<exists>t. (load_moves ans row tm)\<^sup>*\<^sup>* s t \<and> ui_loads t = (ui_loads s)[j := LoadDone]"
proof (induction "phase_rank (ui_loads s ! j)" arbitrary: s rule: less_induct)
  case less
  show ?case
  proof (cases "ui_loads s ! j = LoadDone")
    case True
    then show ?thesis using list_update_id [of "ui_loads s" j] by (metis rtranclp.rtrancl_refl)
  next
    case False
    have "can_settle (ui_loads s ! j)"
      using ui_reach_phases [OF less.prems(2)] less.prems(1) by simp
    from phase_progress [OF less.prems(1) False this]
    obtain t p where t: "load_moves ans row tm s t" "ui_loads t = (ui_loads s)[j := p]"
      "phase_rank p < phase_rank (ui_loads s ! j)" by metis
    obtain u where "(load_moves ans row tm)\<^sup>*\<^sup>* t u" "ui_loads u = (ui_loads t)[j := LoadDone]"
      using less.hyps [of t] less.prems t ui_reach.stepped [OF less.prems(2) load_moves_step [OF t(1)]] by auto
    with t show ?thesis by (metis converse_rtranclp_into_rtranclp list_update_overwrite)
  qed
qed

text \<open>While one load at most is active, its end is the end of the loading state.\<close>

lemma loading_can_end:
  assumes r: "ui_reach True row tm s"
  shows "\<exists>t. (load_moves ans row tm)\<^sup>*\<^sup>* s t \<and> active_loads t = 0 \<and> \<not> ui_loading t"
proof (cases "ui_loading s")
  case True
  with ui_reach_inv [OF r] have one: "active_loads s = 1" by (simp add: ui_inv_def)
  then obtain p where "p \<in> set (ui_loads s)" "p \<noteq> LoadDone"
    by (metis (mono_tags, lifting) filter_False list.size(3) zero_neq_one)
  then obtain j where j: "j < length (ui_loads s)" "ui_loads s ! j \<noteq> LoadDone"
    by (metis in_set_conv_nth)
  obtain t where t: "(load_moves ans row tm)\<^sup>*\<^sup>* s t" "ui_loads t = (ui_loads s)[j := LoadDone]"
    using load_can_end [OF j(1) r] by blast
  have "Suc (length (filter (\<lambda>p. p \<noteq> LoadDone) ((ui_loads s)[j := LoadDone]))) = active_loads s"
    by (rule filter_update_drop) (simp_all add: j)
  with one t(2) have "active_loads t = 0" by simp
  moreover from this ui_reach_inv [OF ui_reach_star [OF load_moves_steps [OF t(1)] r]] have "\<not> ui_loading t"
    by (auto simp: ui_inv_def split: if_splits)
  ultimately show ?thesis using t by blast
next
  case False
  with ui_reach_inv [OF r] show ?thesis by (intro exI [of _ s]) (simp add: ui_inv_def)
qed

subsection \<open>The contract of a row function\<close>

text \<open>
  Rendering reads properties of every alarm and of the schedule, which throws on null and
  undefined. It cannot meet them, provided a row function returns objects.
\<close>

definition view_ok :: "ui \<Rightarrow> bool" where
  "view_ok s \<longleftrightarrow> (\<forall>a \<in> set (ui_alarms s). \<exists>ps. a = JObj ps) \<and> \<not> nullish (ui_schedule s)"

locale row_contract =
  fixes row :: "nat \<Rightarrow> jsval \<Rightarrow> jsval jres"
  assumes row_object: "row i f = Inr v \<Longrightarrow> \<exists>ps. v = JObj ps"
begin

lemma alarm_rows_objects:
  assumes "alarm_rows row a = Inr rows" "v \<in> set rows"
  shows "\<exists>ps. v = JObj ps"
proof -
  obtain k where k: "k < length rows" "v = rows ! k"
    using assms(2) by (auto simp: in_set_conv_nth)
  let ?xs = "enumerate 0 (arr_elems a)"
  have "k < length ?xs" using k mapE_Inr_length [OF assms(1) [unfolded alarm_rows_def]] by simp
  from mapE_Inr_nth [OF assms(1) [unfolded alarm_rows_def] this] k row_object
  show ?thesis by (auto simp: case_prod_beta)
qed

lemma step_view_ok:
  assumes "ui_step g row tm s t" "view_ok s"
  shows "view_ok t"
proof (cases "shown t = shown s")
  case True
  with assms show ?thesis by (simp add: view_ok_def)
next
  case False
  from ui_step_shown [OF assms(1) this] show ?thesis
    by (auto simp: then_succeeds_def view_ok_def coalesce_def dest: alarm_rows_objects
        split: if_splits)
qed

lemma reach_view_ok: "ui_reach g row tm s \<Longrightarrow> view_ok s"
proof (induction rule: ui_reach.induct)
  case mounted
  show ?case by (simp add: view_ok_def mount_def initial_ui_def start_load_def)
qed (rule step_view_ok)

end

end
