(* ===== verification/AlarmChart.thy ===== *)
theory AlarmChart
  imports AlarmLoad
begin

text \<open>
  The TrendChart component of plugins/alarm-demo/src/ui.js and ui.tsx: the aggregation of
  collection rows by date, the chart option built from it, and the life of the chart
  instance (ECharts, a package outside the repository, is the list of calls made on it).
\<close>

subsection \<open>Aggregation by date\<close>

type_synonym by_date = "(jstring \<times> jsnum \<times> jsnum) list"

definition number_or_zero :: "jsval \<Rightarrow> jstring \<Rightarrow> jsnum jres" where
  "number_or_zero r k =
     bindE (get_prop r k) (\<lambda>v. bindE (to_num (coalesce v (js_int 0))) (\<lambda>n. Inr (num_or_zero n)))"

definition agg_row :: "by_date \<Rightarrow> jsval \<Rightarrow> by_date jres" where
  "agg_row m r =
     bindE (get_prop r (js ''date'')) (\<lambda>d0.
     bindE (to_str (coalesce d0 (JStr []))) (\<lambda>d.
       let (records, failed) = (case map_of m d of Some agg \<Rightarrow> agg | None \<Rightarrow> (Fin 0, Fin 0))
       in bindE (number_or_zero r (js ''records'')) (\<lambda>nr.
          bindE (number_or_zero r (js ''filesFailed'')) (\<lambda>nf.
            Inr (AList.update d (num_add records nr, num_add failed nf) m)))))"

fun aggregate :: "by_date \<Rightarrow> jsval list \<Rightarrow> by_date jres" where
  "aggregate m [] = Inr m"
| "aggregate m (r # rs) = bindE (agg_row m r) (\<lambda>m'. aggregate m' rs)"

definition chart_dates :: "by_date \<Rightarrow> jstring list" where
  "chart_dates m = sort (keys_of m)"

definition series_data :: "(jsnum \<times> jsnum \<Rightarrow> jsnum) \<Rightarrow> by_date \<Rightarrow> jsval list" where
  "series_data f m = map (\<lambda>d. JNum (f (the (map_of m d)))) (chart_dates m)"

definition label_records :: jstring where
  "label_records = [0x91C7, 0x96C6, 0x8BB0, 0x5F55]"

definition label_failed :: jstring where
  "label_failed = [0x5931, 0x8D25, 0x6587, 0x4EF6]"

definition chart_option :: "by_date \<Rightarrow> jsval" where
  "chart_option m = JObj
     [(js ''animation'', JBool False),
      (js ''tooltip'', JObj [(js ''trigger'', JStr (js ''axis''))]),
      (js ''legend'', JObj [(js ''data'', JArr [JStr label_records, JStr label_failed])]),
      (js ''grid'', JObj [(js ''left'', js_int 40), (js ''right'', js_int 16),
                          (js ''top'', js_int 36), (js ''bottom'', js_int 28)]),
      (js ''xAxis'', JObj [(js ''type'', JStr (js ''category'')),
                           (js ''data'', JArr (map JStr (chart_dates m)))]),
      (js ''yAxis'', JArr [JObj [(js ''type'', JStr (js ''value''))],
                           JObj [(js ''type'', JStr (js ''value''))]]),
      (js ''series'', JArr
        [JObj [(js ''name'', JStr label_records), (js ''type'', JStr (js ''line'')),
               (js ''smooth'', JBool True), (js ''data'', JArr (series_data fst m))],
         JObj [(js ''name'', JStr label_failed), (js ''type'', JStr (js ''bar'')),
               (js ''yAxisIndex'', js_int 1), (js ''data'', JArr (series_data snd m))]])]"

subsection \<open>The chart instance\<close>

record chart =
  chart_options :: "jsval list"
  chart_resizes :: nat
  chart_disposed :: bool

record trend =
  chart_ref :: "chart option"
  resize_listener :: bool

definition chart_init :: trend where
  "chart_init = \<lparr>chart_ref = Some \<lparr>chart_options = [], chart_resizes = 0, chart_disposed = False\<rparr>,
     resize_listener = True\<rparr>"

definition chart_cleanup :: "trend \<Rightarrow> trend" where
  "chart_cleanup t = t\<lparr>resize_listener := False,
     chart_ref := map_option (\<lambda>c. c\<lparr>chart_disposed := True\<rparr>) (chart_ref t)\<rparr>"

text \<open>A window resize event reaches the component only while its listener is registered.\<close>

definition window_resize :: "trend \<Rightarrow> trend" where
  "window_resize t =
     (if resize_listener t
      then t\<lparr>chart_ref := map_option (\<lambda>c. c\<lparr>chart_resizes := chart_resizes c + 1\<rparr>) (chart_ref t)\<rparr>
      else t)"

definition rows_effect :: "jsval list \<Rightarrow> trend \<Rightarrow> trend jres" where
  "rows_effect rows t =
     bindE (aggregate [] rows) (\<lambda>m.
       Inr (t\<lparr>chart_ref :=
         map_option (\<lambda>c. c\<lparr>chart_options := chart_options c @ [chart_option m]\<rparr>) (chart_ref t)\<rparr>))"

definition mount_chart :: "jsval list \<Rightarrow> trend jres" where
  "mount_chart rows = rows_effect rows chart_init"

subsection \<open>What the aggregation computes\<close>

text \<open>
  Rows as the console's collections query delivers them: a date string and integer counts.
\<close>

definition collection_row :: "jsval \<Rightarrow> jstring \<times> nat \<times> nat \<Rightarrow> bool" where
  "collection_row r = (\<lambda>(d, n, f).
     get_prop r (js ''date'') = Inr (JStr d)
     \<and> get_prop r (js ''records'') = Inr (js_int (int n))
     \<and> get_prop r (js ''filesFailed'') = Inr (js_int (int f)))"

definition total_for :: "(nat \<times> nat \<Rightarrow> nat) \<Rightarrow> (jstring \<times> nat \<times> nat) list \<Rightarrow> jstring \<Rightarrow> nat" where
  "total_for g cs d = sum_list (map (\<lambda>c. g (snd c)) (filter (\<lambda>c. fst c = d) cs))"

definition totals_map :: "(jstring \<times> nat \<times> nat) list \<Rightarrow> by_date \<Rightarrow> bool" where
  "totals_map cs m \<longleftrightarrow> wf_map m \<and> set (keys_of m) = fst ` set cs
     \<and> (\<forall>d \<in> fst ` set cs.
          map_of m d = Some (Fin (of_nat (total_for fst cs d)), Fin (of_nat (total_for snd cs d))))"

lemma total_for_snoc:
  "total_for g (cs @ [(d', p)]) d = total_for g cs d + (if d' = d then g p else 0)"
  by (simp add: total_for_def)

lemma total_for_absent: "d \<notin> fst ` set cs \<Longrightarrow> total_for g cs d = 0"
  by (auto simp: total_for_def image_iff filter_empty_conv)

lemma number_or_zero_int:
  "get_prop r k = Inr (js_int n) \<Longrightarrow> number_or_zero r k = Inr (Fin (of_int n))"
  by (simp add: number_or_zero_def js_int_def coalesce_def)

lemma num_add_nat:
  "a + b < 2 ^ 53 \<Longrightarrow> num_add (Fin (of_nat a)) (Fin (of_nat b)) = Fin (of_nat (a + b))"
  using rnd_of_nat [of "a + b"] by simp

lemma agg_row_collection:
  assumes t: "totals_map cs m" and r: "collection_row r (d, n, f)"
    and bound: "total_for fst (cs @ [(d, n, f)]) d < 2 ^ 53" "total_for snd (cs @ [(d, n, f)]) d < 2 ^ 53"
  obtains m' where "agg_row m r = Inr m'" "totals_map (cs @ [(d, n, f)]) m'"
proof -
  let ?R = "Fin (of_nat (total_for fst cs d)) :: jsnum" and ?F = "Fin (of_nat (total_for snd cs d)) :: jsnum"
  have old: "(case map_of m d of Some agg \<Rightarrow> agg | None \<Rightarrow> (Fin 0, Fin 0)) = (?R, ?F)"
  proof (cases "d \<in> fst ` set cs")
    case True
    with t show ?thesis by (auto simp: totals_map_def)
  next
    case False
    with t have "map_of m d = None" by (auto simp: totals_map_def map_of_eq_None_iff)
    with False show ?thesis by (simp add: total_for_absent)
  qed
  have num: "number_or_zero r (js ''records'') = Inr (Fin (of_nat n))"
    "number_or_zero r (js ''filesFailed'') = Inr (Fin (of_nat f))"
    using r number_or_zero_int [of r _ "int n"] number_or_zero_int [of r _ "int f"]
    by (auto simp: collection_row_def)
  let ?m' = "AList.update d (num_add ?R (Fin (of_nat n)), num_add ?F (Fin (of_nat f))) m"
  have eq: "agg_row m r = Inr ?m'"
    using r by (simp add: agg_row_def collection_row_def coalesce_def old num)
  have "totals_map (cs @ [(d, n, f)]) ?m'"
    using t bound
    by (auto simp: totals_map_def update_conv' total_for_snoc dom_update simp flip: of_nat_add)
  with eq that show ?thesis by blast
qed

lemma total_for_append_le: "total_for g cs d \<le> total_for g (cs @ ds) d"
  by (simp add: total_for_def)

lemma aggregate_totals:
  assumes "list_all2 collection_row rs cs" "totals_map done m"
    and "\<And>d. total_for fst (done @ cs) d < 2 ^ 53" "\<And>d. total_for snd (done @ cs) d < 2 ^ 53"
  shows "\<exists>m'. aggregate m rs = Inr m' \<and> totals_map (done @ cs) m'"
  using assms
proof (induction rs arbitrary: cs "done" m)
  case Nil
  then show ?case by simp
next
  case (Cons r rs)
  from Cons.prems(1) obtain d n f cs' where cs: "cs = (d, n, f) # cs'"
    and r: "collection_row r (d, n, f)" and rs: "list_all2 collection_row rs cs'"
    by (auto simp: list_all2_Cons1)
  have "total_for fst (done @ [(d, n, f)]) d < 2 ^ 53" "total_for snd (done @ [(d, n, f)]) d < 2 ^ 53"
    using Cons.prems(3,4) [of d] total_for_append_le [of _ "done @ [(d, n, f)]" d cs']
    unfolding cs by (simp_all, (meson le_less_trans)+)
  from agg_row_collection [OF Cons.prems(2) r this]
  obtain m1 where m1: "agg_row m r = Inr m1" "totals_map (done @ [(d, n, f)]) m1" by metis
  from Cons.IH [OF rs m1(2)] Cons.prems(3,4) m1(1) show ?case by (simp add: cs)
qed

lemma aggregate_Nil_totals:
  assumes "list_all2 collection_row rs cs"
    and "\<And>d. total_for fst cs d < 2 ^ 53" "\<And>d. total_for snd cs d < 2 ^ 53"
  shows "\<exists>m. aggregate [] rs = Inr m \<and> totals_map cs m"
  using aggregate_totals [OF assms(1), of "[]" "[]"] assms(2,3) by (simp add: totals_map_def)

lemma chart_dates_spec:
  assumes "totals_map cs m"
  shows "sorted (chart_dates m)" "distinct (chart_dates m)" "set (chart_dates m) = fst ` set cs"
  using assms by (auto simp: chart_dates_def totals_map_def)

lemma aggregate_bad_row: "r \<in> set rs \<Longrightarrow> nullish r \<Longrightarrow> \<exists>e. aggregate m rs = Inl e"
proof (induction rs arbitrary: m)
  case (Cons x xs)
  show ?case
  proof (cases "agg_row m x")
    case (Inr m')
    with Cons.prems have "r \<in> set xs" by (auto simp: agg_row_def get_prop_nullish)
    with Cons Inr show ?thesis by simp
  qed simp
qed simp

lemma cleanup_resize: "window_resize (chart_cleanup t) = chart_cleanup t"
  by (simp add: window_resize_def chart_cleanup_def)


text \<open>The value under a path of property names.\<close>

fun read_path :: "jstring list \<Rightarrow> jsval \<Rightarrow> jsval" where
  "read_path [] v = v"
| "read_path (k # ks) v =
     (case v of JObj ps \<Rightarrow> (case map_of ps k of Some w \<Rightarrow> read_path ks w | None \<Rightarrow> JUndef) | _ \<Rightarrow> JUndef)"

end
