(* ===== verification/AlarmUi.thy ===== *)
theory AlarmUi
  imports AlarmChart
begin

text \<open>
  The alarm console page of plugins/alarm-demo/src/ui.js: how a row of the failure ledger
  becomes an alarm, the counters, and the element tree one render returns.
  \<open>React.createElement\<close> and antd are outside the repository: an element is a tree node with
  the component it names, its properties in order and its children (text, elements, a
  JSON value handed over as it is, or nothing).
\<close>

subsection \<open>Rows\<close>

definition load_queries :: "(query_name \<times> jstring) list" where
  "load_queries = [(QAlarms, js ''failures''), (QCollections, js ''collections''),
     (QSchedule, js ''schedule'')]"

definition failure_level :: "jsval \<Rightarrow> jstring jres" where
  "failure_level f =
     bindE (get_prop f (js ''attempts'')) (\<lambda>a.
     bindE (to_num (coalesce a (js_int 0))) (\<lambda>n.
       Inr (if num_ge n (Fin 3) then js ''critical'' else js ''warning'')))"

definition failure_row :: "nat \<Rightarrow> jsval \<Rightarrow> jsval jres" where
  "failure_row i f =
     bindE (failure_level f) (\<lambda>l.
       Inr (JObj (spread_onto [(js ''key'', JStr (num_digits i)), (js ''level'', JStr l)] f)))"

subsection \<open>Counters\<close>

text \<open>
  \<open>counts\<close> is a plain object, so reading a missing key falls back to \<open>Object.prototype\<close>:
  its methods are functions, and \<open>__proto__\<close> reads the prototype itself and ignores the
  assignment of a string.
\<close>

definition object_methods :: "jstring list" where
  "object_methods = map js [''__defineGetter__'', ''__defineSetter__'', ''hasOwnProperty'',
     ''__lookupGetter__'', ''__lookupSetter__'', ''isPrototypeOf'', ''propertyIsEnumerable'',
     ''toString'', ''valueOf'', ''toLocaleString'']"

definition counts_get :: "(jstring \<times> jsval) list \<Rightarrow> jstring \<Rightarrow> jsval" where
  "counts_get cs k =
     (case map_of cs k of
        Some v \<Rightarrow> v
      | None \<Rightarrow> if k = js ''__proto__'' then JObj []
               else if k = js ''constructor'' then JFun (js ''Object'')
               else if k \<in> set object_methods then JFun k else JUndef)"

definition counts_set :: "(jstring \<times> jsval) list \<Rightarrow> jstring \<Rightarrow> jsval \<Rightarrow> (jstring \<times> jsval) list" where
  "counts_set cs k v = (if k = js ''__proto__'' then cs else AList.update k v cs)"

definition count_alarm :: "(jstring \<times> jsval) list \<Rightarrow> jsval \<Rightarrow> (jstring \<times> jsval) list jres" where
  "count_alarm cs a =
     bindE (get_prop a (js ''level'')) (\<lambda>l.
     bindE (to_str l) (\<lambda>k.
     bindE (add_one (coalesce (counts_get cs k) (js_int 0))) (\<lambda>v.
       Inr (counts_set cs k v))))"

fun count_alarms :: "(jstring \<times> jsval) list \<Rightarrow> jsval list \<Rightarrow> (jstring \<times> jsval) list jres" where
  "count_alarms cs [] = Inr cs"
| "count_alarms cs (a # as) = bindE (count_alarm cs a) (\<lambda>cs'. count_alarms cs' as)"

definition zero_counts :: "(jstring \<times> jsval) list" where
  "zero_counts = [(js ''critical'', js_int 0), (js ''warning'', js_int 0)]"

subsection \<open>Elements\<close>

datatype component = Tag jstring | AntdCard | AntdText | AntdSpace | AntdButton | AntdTable | TrendChart

datatype handler = OnLoad | OnTrigger | RenderLevel | RenderAck | OnAck jsval

datatype attr = PVal jsval | PHandler handler | PRecords "(jstring \<times> attr) list list"

datatype node = NText jstring | NElem component "(jstring \<times> attr) list" "node list"
  | NVal jsval | NNone

abbreviation strp :: "string \<Rightarrow> string \<Rightarrow> jstring \<times> attr" where
  "strp k v \<equiv> (js k, PVal (JStr (js v)))"

abbreviation objp :: "string \<Rightarrow> (jstring \<times> jsval) list \<Rightarrow> jstring \<times> attr" where
  "objp k ps \<equiv> (js k, PVal (JObj ps))"

definition level_label :: "jstring \<Rightarrow> jstring option" where
  "level_label k = (if k = js ''critical'' then Some [0x4E25, 0x91CD]
     else if k = js ''warning'' then Some [0x8B66, 0x544A] else None)"

definition level_color :: "jstring \<Rightarrow> jstring option" where
  "level_color k = (if k = js ''critical'' then Some (js ''#f0655a'')
     else if k = js ''warning'' then Some (js ''#f2b544'') else None)"

text \<open>
  The render function of the level column. Keys \<open>LEVELS\<close> does not own find a prototype
  member, which has neither a label nor a colour.
\<close>

definition level_cell :: "jsval \<Rightarrow> node jres" where
  "level_cell v =
     bindE (to_str v) (\<lambda>k.
     bindE (case level_label k of Some l \<Rightarrow> Inr l
            | None \<Rightarrow> to_str (coalesce v (JStr [0x2014]))) (\<lambda>t.
       Inr (NElem (Tag (js ''span''))
         [objp ''style'' [(js ''color'', case level_color k of Some c \<Rightarrow> JStr c | None \<Rightarrow> JUndef),
                          (js ''fontWeight'', js_int 600)]]
         [NText t])))"

definition card :: "string \<Rightarrow> jstring \<Rightarrow> jsval \<Rightarrow> jstring \<Rightarrow> node jres" where
  "card key label v color =
     bindE (to_str v) (\<lambda>t. Inr
       (NElem (Tag (js ''div''))
         [strp ''key'' key,
          objp ''style'' [(js ''flex'', JStr (js ''1 1 160px'')),
                          (js ''border'', JStr (js ''1px solid '' @ color)),
                          (js ''borderRadius'', js_int 10),
                          (js ''padding'', JStr (js ''10px 14px''))]]
         [NElem (Tag (js ''div''))
            [objp ''style'' [(js ''fontSize'', js_int 12), (js ''color'', JStr (js ''#8a93a6''))]]
            [NText label],
          NElem (Tag (js ''div''))
            [objp ''style'' [(js ''fontSize'', js_int 26), (js ''fontWeight'', js_int 700),
                             (js ''color'', JStr color)]]
            [NText t]]))"

text \<open>
  \<open>(schedule.next ?? "\<dots>").replace("T", " ").slice(0, 16)\<close>: only a string has \<open>replace\<close>.
\<close>

fun replace_first :: "nat \<Rightarrow> nat \<Rightarrow> jstring \<Rightarrow> jstring" where
  "replace_first a b [] = []"
| "replace_first a b (c # cs) = (if c = a then b # cs else c # replace_first a b cs)"

definition next_text :: "jsval \<Rightarrow> jstring jres" where
  "next_text sched =
     bindE (get_prop sched (js ''next'')) (\<lambda>n.
       case coalesce n (JStr [0x2014]) of
         JStr t \<Rightarrow> Inr (take 16 (replace_first 84 32 t))
       | _ \<Rightarrow> Inl TypeErr)"

definition columns :: "(jstring \<times> attr) list list" where
  "columns =
     [[(js ''title'', PVal (JStr [0x7EA7, 0x522B])), strp ''dataIndex'' ''level'', strp ''key'' ''level'',
       (js ''width'', PVal (js_int 90)), (js ''render'', PHandler RenderLevel)],
      [(js ''title'', PVal (JStr [0x6587, 0x4EF6])), strp ''dataIndex'' ''name'', strp ''key'' ''name''],
      [(js ''title'', PVal (JStr [0x6570, 0x636E, 0x6E90])), strp ''dataIndex'' ''sourceId'',
       strp ''key'' ''sourceId''],
      [(js ''title'', PVal (JStr [0x91CD, 0x8BD5, 0x6B21, 0x6570])), strp ''dataIndex'' ''attempts'',
       strp ''key'' ''attempts'', (js ''width'', PVal (js_int 90))],
      [(js ''title'', PVal (JStr [0x9519, 0x8BEF])), strp ''dataIndex'' ''error'', strp ''key'' ''error'',
       (js ''ellipsis'', PVal (JBool True))]]"

definition caption :: jstring where
  "caption = [0x5B8C, 0x5168, 0x81EA, 0x5B9A, 0x4E49, 0x6E32, 0x67D3, 0xFF1A, 0x63D2, 0x4EF6,
     0x524D, 0x7AEF, 0x6A21, 0x5757] @ js '' + '' @ [0x81EA, 0x5E26] @ js '' ECharts'' @
     [0xFF08, 0x76F8, 0x5BF9, 0x5BFC, 0x5165, 0xFF0C, 0x79BB, 0x7EBF, 0x53EF, 0x7528, 0xFF09]"

text \<open>\<open>error && e(Text, ...)\<close>: null renders nothing, the empty string renders itself.\<close>

definition error_node :: "jstring option \<Rightarrow> node" where
  "error_node err =
     (case err of None \<Rightarrow> NNone
      | Some t \<Rightarrow> if t = [] then NText [] else NElem AntdText [strp ''type'' ''danger''] [NText t])"

definition buttons :: "bool \<Rightarrow> bool \<Rightarrow> node" where
  "buttons loading busy =
     NElem (Tag (js ''div'')) []
       [NElem AntdSpace []
         [NElem AntdButton [strp ''size'' ''small'', (js ''onClick'', PHandler OnLoad),
             (js ''loading'', PVal (JBool loading))] [NText [0x5237, 0x65B0]],
          NElem AntdButton [strp ''size'' ''small'', strp ''type'' ''primary'',
             (js ''onClick'', PHandler OnTrigger), (js ''loading'', PVal (JBool busy))]
             [NText [0x7ACB, 0x5373, 0x91C7, 0x96C6]]]]"

definition alarm_table :: "bool \<Rightarrow> jsval list \<Rightarrow> node" where
  "alarm_table loading alarms =
     NElem AntdTable
       [strp ''size'' ''small'', strp ''rowKey'' ''key'', (js ''loading'', PVal (JBool loading)),
        (js ''dataSource'', PVal (JArr alarms)),
        objp ''pagination'' [(js ''pageSize'', js_int 10), (js ''hideOnSinglePage'', JBool True)],
        (js ''columns'', PRecords columns)] []"

text \<open>One render of AlarmConsole. Anything that throws fails the render.\<close>

definition render :: "ui \<Rightarrow> node jres" where
  "render s =
     bindE (count_alarms zero_counts (ui_alarms s)) (\<lambda>counts.
     bindE (card ''c'' [0x4E25, 0x91CD, 0x62A5, 0x8B66] (counts_get counts (js ''critical''))
              (js ''#f0655a'')) (\<lambda>c1.
     bindE (card ''w'' [0x8B66, 0x544A] (counts_get counts (js ''warning'')) (js ''#f2b544'')) (\<lambda>c2.
     bindE (next_text (ui_schedule s)) (\<lambda>t.
     bindE (card ''n'' [0x4E0B, 0x6B21, 0x91C7, 0x96C6] (JStr t) (js ''#4d6bfe'')) (\<lambda>c3.
       Inr (NElem AntdCard
         [objp ''style'' [(js ''display'', JStr (js ''flex'')), (js ''flexDirection'', JStr (js ''column'')),
                          (js ''gap'', js_int 14)]]
         [NElem (Tag (js ''div''))
            [objp ''style'' [(js ''display'', JStr (js ''flex'')), (js ''gap'', js_int 10),
                             (js ''alignItems'', JStr (js ''center'')),
                             (js ''justifyContent'', JStr (js ''space-between''))]]
            [NElem AntdText [strp ''type'' ''secondary'', objp ''style'' [(js ''fontSize'', js_int 12)]]
               [NText caption]],
          NElem (Tag (js ''div''))
            [objp ''style'' [(js ''display'', JStr (js ''flex'')), (js ''gap'', js_int 12),
                             (js ''flexWrap'', JStr (js ''wrap''))]] [c1, c2, c3],
          NElem (Tag (js ''div''))
            [objp ''style'' [(js ''border'', JStr (js ''1px solid var(--line-soft, #d9dee8)'')),
                             (js ''borderRadius'', js_int 10),
                             (js ''padding'', JStr (js ''8px 10px''))]]
            [NElem TrendChart [(js ''rows'', PVal (JArr (ui_collections s)))] []],
          buttons (ui_loading s) (ui_busy s),
          error_node (ui_error s),
          alarm_table (ui_loading s) (ui_alarms s)]))))))"

subsection \<open>Rows and counters\<close>

text \<open>
  A row as the failure ledger's query delivers it: an object with a numeric attempt count
  and no property called \<open>key\<close> or \<open>level\<close>, which would replace the page's own.
\<close>

definition ledger_row :: "jsval \<Rightarrow> nat \<Rightarrow> bool" where
  "ledger_row f n \<longleftrightarrow> (\<exists>ps. f = JObj ps \<and> wf_map ps \<and> map_of ps (js ''attempts'') = Some (js_int (int n))
     \<and> map_of ps (js ''key'') = None \<and> map_of ps (js ''level'') = None)"

definition level_of :: "nat \<Rightarrow> jstring" where
  "level_of n = (if 3 \<le> n then js ''critical'' else js ''warning'')"

lemma failure_level_ledger: "ledger_row f n \<Longrightarrow> failure_level f = Inr (level_of n)"
  by (auto simp: ledger_row_def failure_level_def level_of_def js_int_def coalesce_def)

definition alarm_of :: "jsval \<Rightarrow> nat \<Rightarrow> nat \<Rightarrow> jsval \<Rightarrow> bool" where
  "alarm_of f i n r \<longleftrightarrow> get_prop r (js ''key'') = Inr (JStr (num_digits i))
     \<and> get_prop r (js ''level'') = Inr (JStr (level_of n))
     \<and> (\<forall>k. k \<noteq> js ''key'' \<longrightarrow> k \<noteq> js ''level'' \<longrightarrow> get_prop r k = get_prop f k)"

lemma failure_row_ledger: "ledger_row f n \<Longrightarrow> \<exists>r. failure_row i f = Inr r \<and> alarm_of f i n r"
proof -
  assume l: "ledger_row f n"
  then obtain ps where f: "f = JObj ps" and ps: "wf_map ps" "map_of ps (js ''key'') = None"
    "map_of ps (js ''level'') = None" by (auto simp: ledger_row_def)
  let ?r = "JObj (spread_onto [(js ''key'', JStr (num_digits i)), (js ''level'', JStr (level_of n))] f)"
  have "get_prop ?r k = get_prop f k" if "k \<noteq> js ''key''" "k \<noteq> js ''level''" for k
    using that by (cases "map_of ps k") (simp_all add: f map_of_spread ps(1))
  then have "alarm_of f i n ?r" by (simp add: alarm_of_def f map_of_spread ps)
  with failure_level_ledger [OF l] show ?thesis by (simp add: failure_row_def)
qed

interpretation failure: row_contract failure_row
  by unfold_locales (auto simp: failure_row_def bindE_eq_Inr)

lemma alarm_rows_ledger:
  assumes "list_all2 ledger_row fs ns"
  shows "\<exists>rows. alarm_rows failure_row (JArr fs) = Inr rows \<and> length rows = length fs
     \<and> (\<forall>i < length fs. alarm_of (fs ! i) i (ns ! i) (rows ! i))"
proof -
  define g where "g = (\<lambda>(i, f). SOME r. failure_row i f = Inr r \<and> alarm_of f i (ns ! i) r)"
  have g: "failure_row i (fs ! i) = Inr (g (i, fs ! i)) \<and> alarm_of (fs ! i) i (ns ! i) (g (i, fs ! i))"
    if "i < length fs" for i
  proof -
    from assms that have "ledger_row (fs ! i) (ns ! i)" by (simp add: list_all2_conv_all_nth)
    from failure_row_ledger [OF this, of i] show ?thesis
      unfolding g_def prod.case by (rule someI_ex)
  qed
  let ?xs = "enumerate 0 fs"
  have "alarm_rows failure_row (JArr fs) = Inr (map g ?xs)"
    unfolding alarm_rows_def arr_elems.simps
    by (rule mapE_Inr_total) (auto simp: in_set_enumerate_eq g)
  with g show ?thesis by (simp add: nth_enumerate_eq)
qed

definition count_level :: "jstring \<Rightarrow> nat list \<Rightarrow> nat" where
  "count_level l ns = length (filter (\<lambda>n. level_of n = l) ns)"

definition counts_are :: "nat \<Rightarrow> nat \<Rightarrow> (jstring \<times> jsval) list" where
  "counts_are c w = [(js ''critical'', js_int (int c)), (js ''warning'', js_int (int w))]"

lemma add_one_nat: "c + 1 < 2 ^ 53 \<Longrightarrow> add_one (js_int (int c)) = Inr (js_int (int (Suc c)))"
  using rnd_of_nat [of "Suc c"] by (simp add: js_int_def add.commute)

lemma coalesce_js_int [simp]: "coalesce (js_int n) d = js_int n"
  by (simp add: coalesce_def js_int_def)

lemma count_alarm_step:
  assumes "alarm_of f i n r" "c + w + 1 < 2 ^ 53"
  shows "count_alarm (counts_are c w) r =
    Inr (if 3 \<le> n then counts_are (Suc c) w else counts_are c (Suc w))"
  using assms add_one_nat [of c] add_one_nat [of w]
  by (simp add: alarm_of_def count_alarm_def counts_get_def counts_set_def counts_are_def
      level_of_def del: add_one.simps)

lemma level_of_cases [simp]:
  "level_of n = js ''critical'' \<longleftrightarrow> 3 \<le> n" "level_of n = js ''warning'' \<longleftrightarrow> \<not> 3 \<le> n"
  by (simp_all add: level_of_def)

lemma count_alarms_from:
  assumes "list_all2 (\<lambda>n r. \<exists>f i. alarm_of f i n r) ns rows" "c + w + length ns < 2 ^ 53"
  shows "count_alarms (counts_are c w) rows =
    Inr (counts_are (c + count_level (js ''critical'') ns) (w + count_level (js ''warning'') ns))"
  using assms
proof (induction ns arbitrary: rows c w)
  case (Cons n ns)
  then obtain r rs f i where rows: "rows = r # rs" and r: "alarm_of f i n r"
    and rs: "list_all2 (\<lambda>n r. \<exists>f i. alarm_of f i n r) ns rs"
    by (auto simp: list_all2_Cons1)
  have "c + w + 1 < 2 ^ 53" using Cons.prems(2) by simp
  from count_alarm_step [OF r this] Cons.IH [OF rs] Cons.prems(2) show ?case
    by (auto simp: rows count_level_def)
qed (simp add: count_level_def)

lemma count_level_total: "count_level (js ''critical'') ns + count_level (js ''warning'') ns = length ns"
  by (simp add: count_level_def sum_length_filter_compl)

lemma zero_counts_are: "zero_counts = counts_are 0 0"
  by (simp add: zero_counts_def counts_are_def)

subsection \<open>When a render succeeds\<close>

lemma card_ok: "to_str v = Inr t \<Longrightarrow> \<exists>n. card k l v c = Inr n"
  by (simp add: card_def)

lemma counts_stay_printable:
  assumes "count_alarms cs rows = Inr cs'"
    and "\<And>k. k \<in> {js ''critical'', js ''warning''} \<Longrightarrow> \<exists>n. map_of cs k = Some (JNum n)"
  shows "\<forall>k \<in> {js ''critical'', js ''warning''}. \<exists>n. map_of cs' k = Some (JNum n)"
  using assms
proof (induction rows arbitrary: cs)
  case (Cons r rs)
  from Cons.prems(1) obtain cs1 where cs1: "count_alarm cs r = Inr cs1"
    and rest: "count_alarms cs1 rs = Inr cs'" by (auto simp: bindE_eq_Inr)
  have "\<exists>n. map_of cs1 k = Some (JNum n)" if k: "k \<in> {js ''critical'', js ''warning''}" for k
  proof -
    obtain l j v where v: "add_one (coalesce (counts_get cs j) (js_int 0)) = Inr v"
      and c: "cs1 = counts_set cs j v"
      using cs1 by (auto simp: count_alarm_def bindE_eq_Inr)
    show ?thesis
      using Cons.prems(2) [OF k] v
      by (cases "k = j") (auto simp: c counts_set_def counts_get_def update_conv' coalesce_def)
  qed
  from Cons.IH [OF rest this] show ?case by blast
qed auto

definition next_ok :: "jsval \<Rightarrow> bool" where
  "next_ok sched \<longleftrightarrow> (\<exists>v. get_prop sched (js ''next'') = Inr v \<and> (nullish v \<or> (\<exists>t. v = JStr t)))"

lemma next_text_ok_iff: "(\<exists>t. next_text sched = Inr t) \<longleftrightarrow> next_ok sched"
proof (cases "get_prop sched (js ''next'')")
  case (Inr v)
  then show ?thesis by (cases v) (simp_all add: next_text_def next_ok_def coalesce_def)
qed (simp add: next_text_def next_ok_def)

definition level_ok :: "jsval \<Rightarrow> bool" where
  "level_ok a \<longleftrightarrow> (\<exists>l k. get_prop a (js ''level'') = Inr l \<and> to_str l = Inr k)"

lemma counts_get_add_one: 
  assumes "\<And>k v. map_of cs k = Some v \<Longrightarrow> (\<exists>n. v = JNum n) \<or> (\<exists>t. v = JStr t)"
  shows "\<exists>v. add_one (coalesce (counts_get cs k) (js_int 0)) = Inr v
     \<and> ((\<exists>n. v = JNum n) \<or> (\<exists>t. v = JStr t))"
  using assms [of k]
  by (auto simp: counts_get_def coalesce_def js_int_def split: option.splits)

lemma count_alarms_ok:
  assumes "\<And>k v. map_of cs k = Some v \<Longrightarrow> (\<exists>n. v = JNum n) \<or> (\<exists>t. v = JStr t)"
  shows "(\<exists>cs'. count_alarms cs rows = Inr cs') \<longleftrightarrow> list_all level_ok rows"
  using assms
proof (induction rows arbitrary: cs)
  case (Cons r rs)
  show ?case
  proof (cases "level_ok r")
    case True
    then obtain l k where lk: "get_prop r (js ''level'') = Inr l" "to_str l = Inr k"
      by (auto simp: level_ok_def)
    obtain v where v: "add_one (coalesce (counts_get cs k) (js_int 0)) = Inr v"
      "(\<exists>n. v = JNum n) \<or> (\<exists>t. v = JStr t)"
      using counts_get_add_one [of cs k] Cons.prems by metis
    have "(\<exists>cs'. count_alarms (counts_set cs k v) rs = Inr cs') \<longleftrightarrow> list_all level_ok rs"
      using Cons.prems v(2)
      by (intro Cons.IH) (auto simp: counts_set_def update_conv' split: if_splits)
    with lk v(1) True show ?thesis by (simp add: count_alarm_def)
  next
    case False
    then show ?thesis by (auto simp: count_alarm_def level_ok_def bindE_eq_Inr)
  qed
qed auto

lemma cards_ok:
  assumes "count_alarms zero_counts rows = Inr cs" "k \<in> {js ''critical'', js ''warning''}"
  shows "\<exists>t. to_str (counts_get cs k) = Inr t"
proof -
  have "\<exists>n. map_of zero_counts l = Some (JNum n)" if "l \<in> {js ''critical'', js ''warning''}" for l
    using that by (auto simp: zero_counts_def js_int_def)
  from counts_stay_printable [OF assms(1) this] assms(2)
  have "\<exists>n. map_of cs k = Some (JNum n)" by blast
  then show ?thesis by (auto simp: counts_get_def)
qed

lemma render_iff:
  "(\<exists>n. render s = Inr n) \<longleftrightarrow>
     (\<exists>cs. count_alarms zero_counts (ui_alarms s) = Inr cs) \<and> next_ok (ui_schedule s)"
proof (cases "count_alarms zero_counts (ui_alarms s)")
  case (Inr cs)
  obtain a b where "to_str (counts_get cs (js ''critical'')) = Inr a"
    "to_str (counts_get cs (js ''warning'')) = Inr b"
    using cards_ok [OF Inr] by blast
  with Inr show ?thesis
    by (cases "next_text (ui_schedule s)")
      (auto simp: render_def card_def simp flip: next_text_ok_iff)
qed (simp add: render_def)

subsection \<open>Properties of the page\<close>

text \<open>
  C1. A load whose three queries resolve, the first with rows of the failure ledger: every
  ledger row becomes exactly one alarm, in order, keyed by its index, critical from three
  attempts on and a warning below, with all its other properties kept; the collections and
  the schedule are replaced, the error is cleared and the loading state ends.
\<close>

theorem load_shows_ledger:
  assumes "list_all2 ledger_row fs ns"
  shows "\<exists>rows. run_load failure_row tm (Inr (JArr fs)) (Inr c) (Inr d) s =
      s\<lparr>ui_alarms := rows, ui_collections := arr_elems c, ui_schedule := coalesce d (JObj []),
        ui_error := None, ui_loading := False, ui_loads := ui_loads s @ [LoadDone]\<rparr>
    \<and> length rows = length fs
    \<and> (\<forall>i < length fs.
         get_prop (rows ! i) (js ''key'') = Inr (JStr (num_digits i))
       \<and> get_prop (rows ! i) (js ''level'') =
           Inr (JStr (if 3 \<le> ns ! i then js ''critical'' else js ''warning''))
       \<and> (\<forall>k. k \<noteq> js ''key'' \<longrightarrow> k \<noteq> js ''level'' \<longrightarrow>
            get_prop (rows ! i) k = get_prop (fs ! i) k))"
proof -
  from alarm_rows_ledger [OF assms] obtain rows where rows:
    "alarm_rows failure_row (JArr fs) = Inr rows" "length rows = length fs"
    "\<forall>i < length fs. alarm_of (fs ! i) i (ns ! i) (rows ! i)" by blast
  show ?thesis
    by (rule exI [of _ rows])
      (use rows run_load_ok [OF rows(1), of tm c d s] in \<open>simp add: alarm_of_def level_of_def\<close>)
qed

definition sample_ledger :: "jsval list" where
  "sample_ledger =
     [JObj [(js ''name'', JStr (js ''a.csv'')), (js ''attempts'', js_int 5)],
      JObj [(js ''attempts'', js_int 1)]]"

lemma sample_ledger_rows: "list_all2 ledger_row sample_ledger [5, 1]"
  by (simp add: sample_ledger_def ledger_row_def)

theorem load_shows_ledger_witness:
  "list_all2 ledger_row sample_ledger [5, 1] \<and>
   (\<exists>rows. ui_alarms (run_load failure_row [] (Inr (JArr sample_ledger)) (Inr JNull) (Inr JNull)
       initial_ui) = rows \<and> length rows = 2
     \<and> get_prop (rows ! 0) (js ''level'') = Inr (JStr (js ''critical''))
     \<and> get_prop (rows ! 1) (js ''level'') = Inr (JStr (js ''warning'')))"
proof -
  have l: "length sample_ledger = 2" by (simp add: sample_ledger_def)
  from load_shows_ledger [OF sample_ledger_rows, of "[]" JNull JNull initial_ui] l
  obtain rows where "ui_alarms (run_load failure_row [] (Inr (JArr sample_ledger)) (Inr JNull)
       (Inr JNull) initial_ui) = rows" "length rows = 2"
    "\<forall>i < 2. get_prop (rows ! i) (js ''level'') =
       Inr (JStr (if 3 \<le> [5, 1::nat] ! i then js ''critical'' else js ''warning''))"
    by auto
  then show ?thesis
    using sample_ledger_rows by (auto simp: numeral_2_eq_2 All_less_Suc)
qed

text \<open>
  C2. The two counters on the cards split the alarms: after a load of ledger rows the
  critical counter is the number of rows with at least three attempts, the warning counter
  the number of the others, and together they are the number of alarms.
\<close>

theorem counters_split_alarms:
  assumes "list_all2 ledger_row fs ns" "length fs < 2 ^ 53"
  shows "\<exists>rows c w. alarm_rows failure_row (JArr fs) = Inr rows
    \<and> count_alarms zero_counts rows =
        Inr [(js ''critical'', js_int (int c)), (js ''warning'', js_int (int w))]
    \<and> c = length (filter (\<lambda>n. 3 \<le> n) ns) \<and> c + w = length fs"
proof -
  from alarm_rows_ledger [OF assms(1)] obtain rows where rows:
    "alarm_rows failure_row (JArr fs) = Inr rows" "length rows = length fs"
    "\<forall>i < length fs. alarm_of (fs ! i) i (ns ! i) (rows ! i)" by blast
  have len: "length ns = length fs" using assms(1) list_all2_lengthD by fastforce
  have "list_all2 (\<lambda>n r. \<exists>f i. alarm_of f i n r) ns rows"
    using rows len by (auto simp: list_all2_conv_all_nth)
  from count_alarms_from [OF this, of 0 0] assms(2) len
  have "count_alarms zero_counts rows =
    Inr (counts_are (count_level (js ''critical'') ns) (count_level (js ''warning'') ns))"
    by (simp add: zero_counts_are)
  with rows(1) len show ?thesis
    by (intro exI [of _ rows] exI [of _ "count_level (js ''critical'') ns"]
        exI [of _ "count_level (js ''warning'') ns"])
      (simp add: counts_are_def count_level_total, simp add: count_level_def)
qed

theorem counters_split_alarms_witness:
  "\<exists>rows c w. alarm_rows failure_row (JArr sample_ledger) = Inr rows
    \<and> count_alarms zero_counts rows =
        Inr [(js ''critical'', js_int (int c)), (js ''warning'', js_int (int w))]
    \<and> c = 1 \<and> c + w = 2"
  using counters_split_alarms [OF sample_ledger_rows] by (simp add: sample_ledger_def)

text \<open>
  C3. A load that runs by itself and fails, its three queries settling in any order: because a
  query rejects (the first rejection counts), or because all resolve and some row of the first
  answer throws while it is built. It leaves the alarms, the collections and the schedule on the
  page as they were and ends the loading state; it shows the reason, unless the reason itself
  cannot be converted to a string, when the message before stays.
\<close>

theorem failed_load_keeps_data:
  assumes "distinct (map fst qs)" "length qs = 3" "load_failure failure_row qs = Some e"
  shows "load_in_order failure_row tm qs s =
    s\<lparr>ui_error := (case error_text tm e of Inr t \<Rightarrow> Some t | Inl _ \<Rightarrow> ui_error s),
      ui_loading := False, ui_loads := ui_loads s @ [LoadDone]\<rparr>"
  by (rule load_in_order_fails [OF assms])

text \<open>A null row after good rows, the schedule answering first; and two rejections, the later one last.\<close>

theorem failed_load_keeps_data_witness:
  "load_in_order failure_row [] [(QSchedule, Inr JNull), (QAlarms, Inr (JArr (sample_ledger @ [JNull]))),
       (QCollections, Inr JNull)] initial_ui =
     initial_ui\<lparr>ui_error := Some [], ui_loading := False, ui_loads := [LoadDone]\<rparr>
   \<and> load_in_order failure_row [] [(QCollections, Inl (ErrObj (js ''offline''))), (QAlarms, Inr JNull),
       (QSchedule, Inl TypeErr)] initial_ui =
     initial_ui\<lparr>ui_error := Some (js ''offline''), ui_loading := False, ui_loads := [LoadDone]\<rparr>"
proof -
  let ?a = "[(QSchedule, Inr JNull), (QAlarms, Inr (JArr (sample_ledger @ [JNull]))), (QCollections, Inr JNull)]"
  let ?b = "[(QCollections, Inl (ErrObj (js ''offline''))), (QAlarms, Inr JNull), (QSchedule, Inl TypeErr)]"
  have a: "load_failure failure_row ?a = Some TypeErr"
    by (simp add: load_failure_def alarm_rows_def sample_ledger_def failure_row_def failure_level_def
        coalesce_def js_int_def)
  have b: "load_failure failure_row ?b = Some (ErrObj (js ''offline''))"
    by (simp add: load_failure_def)
  from failed_load_keeps_data [OF _ _ a, of "[]" initial_ui] failed_load_keeps_data [OF _ _ b, of "[]" initial_ui]
  show ?thesis by (simp add: initial_ui_def)
qed

text \<open>
  C4. With buttons that ignore clicks while they show their loading state, in every
  reachable state of the page the loading flag is set exactly when one load is in flight
  (never two), and the busy flag exactly when one trigger command is.
\<close>

theorem loading_means_in_flight:
  assumes "ui_reach True failure_row tm s"
  shows "length (filter (\<lambda>p. p \<noteq> LoadDone) (ui_loads s)) = (if ui_loading s then 1 else 0)
    \<and> length (filter (\<lambda>p. p \<noteq> TriggerDone) (ui_triggers s)) = (if ui_busy s then 1 else 0)"
  using ui_reach_inv [OF assms] by (simp add: ui_inv_def)

theorem loading_means_in_flight_witness:
  "ui_reach True failure_row [] (start_trigger mount) \<and> ui_loading (start_trigger mount)
   \<and> length (filter (\<lambda>p. p \<noteq> TriggerDone) (ui_triggers (start_trigger mount))) = 1"
proof -
  have "ui_reach True failure_row [] (start_trigger mount)"
    by (rule ui_reach.stepped [OF ui_reach.mounted], rule ui_step.click_trigger)
      (simp add: mount_def initial_ui_def start_load_def)
  with loading_means_in_flight [OF this] show ?thesis
    by (simp add: mount_def initial_ui_def start_load_def start_trigger_def)
qed

text \<open>
  C5. Loads always can end. With buttons that ignore clicks while they show their loading state, from
  every reachable state, and whatever the queries of each load will be answered with, answers of
  the hub and promise callbacks alone, without a click, lead to a state with no load in flight and the
  loading flag off.
\<close>

theorem loading_ends:
  assumes "ui_reach True failure_row tm s"
  shows "\<exists>t. (load_moves ans failure_row tm)\<^sup>*\<^sup>* s t
    \<and> length (filter (\<lambda>p. p \<noteq> LoadDone) (ui_loads t)) = 0 \<and> \<not> ui_loading t"
  using loading_can_end [OF assms] .

theorem loading_ends_witness:
  "\<exists>t. (load_moves (\<lambda>j q. Inr JNull) failure_row [])\<^sup>*\<^sup>* mount t
    \<and> length (filter (\<lambda>p. p \<noteq> LoadDone) (ui_loads t)) = 0 \<and> \<not> ui_loading t"
  using loading_ends [OF ui_reach.mounted] .

text \<open>
  C6. Whatever the interleaving of loads, clicks and settlements, the data on the page
  (alarms, collections, schedule) changes in one step only: the \<open>then\<close> callback of a load
  whose three queries resolved and whose rows all converted. It replaces the three
  together and clears the error.
\<close>

theorem data_changes_atomically:
  assumes "ui_step g failure_row tm s t"
    and "(ui_alarms t, ui_collections t, ui_schedule t) \<noteq> (ui_alarms s, ui_collections s, ui_schedule s)"
  shows "\<exists>a c d. ThenDue a c d \<in> set (ui_loads s)
    \<and> alarm_rows failure_row a = Inr (ui_alarms t) \<and> ui_collections t = arr_elems c
    \<and> ui_schedule t = coalesce d (JObj []) \<and> ui_error t = None"
  using ui_step_shown [OF assms] by (auto simp: then_succeeds_def)

definition one_result :: ui where
  "one_result = mount\<lparr>ui_loads := [ThenDue (JArr [JObj []]) JNull JNull]\<rparr>"

theorem data_changes_atomically_witness:
  "ui_step True failure_row [] one_result (callback_at failure_row [] 0 one_result)
   \<and> (\<exists>a c d. ThenDue a c d \<in> set (ui_loads one_result)
       \<and> alarm_rows failure_row a = Inr (ui_alarms (callback_at failure_row [] 0 one_result)))"
proof -
  have st: "ui_step True failure_row [] one_result (callback_at failure_row [] 0 one_result)"
    by (rule ui_step.callback) (simp add: one_result_def)
  have "ui_alarms (callback_at failure_row [] 0 one_result) \<noteq> ui_alarms one_result"
    by (simp add: one_result_def mount_def initial_ui_def handler_defs alarm_rows_def
        failure_row_def failure_level_def coalesce_def js_int_def)
  with data_changes_atomically [OF st] st show ?thesis by blast
qed

text \<open>
  C7. The chart: when the rows have a date string and integer counts (as the console's query delivers
  them) and no sum reaches \<open>2^53\<close>, the effect of the rows makes one call on the chart that is there, and its
  option has on the category axis every date of the rows once, in ascending order of UTF-16 units,
  in the series called as the first legend entry the exact sums of the records of those dates, and in the
  series called as the second one those of the failed files.
\<close>

theorem chart_totals:
  assumes "list_all2 collection_row rs cs"
    and "\<And>d. total_for fst cs d < 2 ^ 53" and "\<And>d. total_for snd cs d < 2 ^ 53"
  shows "\<exists>opt ds line bar. rows_effect rs t =
      Inr (t\<lparr>chart_ref := map_option (\<lambda>c. c\<lparr>chart_options := chart_options c @ [opt]\<rparr>) (chart_ref t)\<rparr>)
    \<and> sorted ds \<and> distinct ds \<and> set ds = fst ` set cs
    \<and> read_path [js ''xAxis'', js ''data''] opt = JArr (map JStr ds)
    \<and> read_path [js ''legend'', js ''data''] opt = JArr [JStr label_records, JStr label_failed]
    \<and> read_path [js ''series''] opt = JArr [line, bar]
    \<and> read_path [js ''name''] line = JStr label_records
    \<and> read_path [js ''data''] line = JArr (map (\<lambda>d. js_int (int (total_for fst cs d))) ds)
    \<and> read_path [js ''name''] bar = JStr label_failed
    \<and> read_path [js ''data''] bar = JArr (map (\<lambda>d. js_int (int (total_for snd cs d))) ds)"
proof -
  obtain m where m: "aggregate [] rs = Inr m" "totals_map cs m"
    using aggregate_Nil_totals [OF assms] by blast
  have "the (map_of m d) = (Fin (of_nat (total_for fst cs d)), Fin (of_nat (total_for snd cs d)))"
    if "d \<in> set (chart_dates m)" for d
    using m(2) that chart_dates_spec(3) [OF m(2)] by (auto simp: totals_map_def)
  then have data: "series_data fst m = map (\<lambda>d. js_int (int (total_for fst cs d))) (chart_dates m)"
    "series_data snd m = map (\<lambda>d. js_int (int (total_for snd cs d))) (chart_dates m)"
    by (auto simp: series_data_def js_int_def)
  obtain line bar where series: "read_path [js ''series''] (chart_option m) = JArr [line, bar]"
    "read_path [js ''name''] line = JStr label_records" "read_path [js ''data''] line = JArr (series_data fst m)"
    "read_path [js ''name''] bar = JStr label_failed" "read_path [js ''data''] bar = JArr (series_data snd m)"
    by (simp add: chart_option_def)
  have axis: "read_path [js ''xAxis'', js ''data''] (chart_option m) = JArr (map JStr (chart_dates m))"
    "read_path [js ''legend'', js ''data''] (chart_option m) = JArr [JStr label_records, JStr label_failed]"
    by (simp_all add: chart_option_def)
  show ?thesis
    by (rule exI [of _ "chart_option m"], rule exI [of _ "chart_dates m"], rule exI [of _ line], rule exI [of _ bar])
      (simp add: rows_effect_def m(1) chart_dates_spec [OF m(2)] series axis data del: read_path.simps)
qed

definition sample_collections :: "jsval list" where
  "sample_collections = map (\<lambda>(d, n, f). JObj [(js ''date'', JStr (js d)),
     (js ''records'', js_int n), (js ''filesFailed'', js_int f)])
     [(''2026-09-09'', 7, 1), (''2026-09-08'', 5, 0), (''2026-09-09'', 3, 2)]"

theorem chart_totals_witness:
  "\<exists>opt ds line bar. mount_chart sample_collections =
      Inr (chart_init\<lparr>chart_ref := Some \<lparr>chart_options = [opt], chart_resizes = 0, chart_disposed = False\<rparr>\<rparr>)
    \<and> set ds = {js ''2026-09-08'', js ''2026-09-09''} \<and> read_path [js ''series''] opt = JArr [line, bar]
    \<and> (\<exists>vs ws. read_path [js ''data''] line = JArr vs \<and> js_int 10 \<in> set vs
        \<and> read_path [js ''data''] bar = JArr ws \<and> js_int 3 \<in> set ws)"
proof -
  let ?cs = "[(js ''2026-09-09'', 7::nat, 1::nat), (js ''2026-09-08'', 5, 0), (js ''2026-09-09'', 3, 2)]"
  have rows: "list_all2 collection_row sample_collections ?cs"
    by (simp add: sample_collections_def collection_row_def)
  have "total_for fst ?cs d < 2 ^ 53" "total_for snd ?cs d < 2 ^ 53" for d
    by (simp_all add: total_for_def)
  from chart_totals [OF rows this, of chart_init] obtain opt ds line bar where
    e: "rows_effect sample_collections chart_init = Inr (chart_init\<lparr>chart_ref :=
      map_option (\<lambda>c. c\<lparr>chart_options := chart_options c @ [opt]\<rparr>) (chart_ref chart_init)\<rparr>)"
    and ds: "set ds = fst ` set ?cs" and lb: "read_path [js ''series''] opt = JArr [line, bar]"
    "read_path [js ''data''] line = JArr (map (\<lambda>d. js_int (int (total_for fst ?cs d))) ds)"
    "read_path [js ''data''] bar = JArr (map (\<lambda>d. js_int (int (total_for snd ?cs d))) ds)"
    by blast
  have "js ''2026-09-09'' \<in> set ds" unfolding ds by simp
  moreover have "total_for fst ?cs (js ''2026-09-09'') = 10" "total_for snd ?cs (js ''2026-09-09'') = 3"
    by (simp_all add: total_for_def)
  ultimately have "js_int 10 \<in> set (map (\<lambda>d. js_int (int (total_for fst ?cs d))) ds)"
    "js_int 3 \<in> set (map (\<lambda>d. js_int (int (total_for snd ?cs d))) ds)"
    by (force simp del: total_for_def)+
  moreover have "set ds = {js ''2026-09-08'', js ''2026-09-09''}" unfolding ds by auto
  ultimately show ?thesis using e lb by (auto simp: mount_chart_def chart_init_def)
qed

text \<open>
  C8. A reachable page renders exactly when the next collection time of the schedule is absent, null
  or a string and every alarm has a level that converts to a string (an answer of the hub can carry a
  level of its own, since a row's properties replace the page's): any other JSON value in these two
  places makes the render throw, and nothing else does.
\<close>

theorem render_ok_iff_next_string:
  assumes "ui_reach g failure_row tm s"
  shows "(\<exists>n. render s = Inr n) \<longleftrightarrow>
    (\<forall>v. get_prop (ui_schedule s) (js ''next'') = Inr v \<longrightarrow> nullish v \<or> (\<exists>t. v = JStr t))
    \<and> (\<forall>a \<in> set (ui_alarms s). \<exists>l k. get_prop a (js ''level'') = Inr l \<and> to_str l = Inr k)"
proof -
  have "(\<exists>cs. count_alarms zero_counts (ui_alarms s) = Inr cs) \<longleftrightarrow> list_all level_ok (ui_alarms s)"
    by (rule count_alarms_ok) (auto simp: zero_counts_def js_int_def split: if_splits)
  moreover have "\<exists>v. get_prop (ui_schedule s) (js ''next'') = Inr v"
    using failure.reach_view_ok [OF assms] by (intro get_prop_not_nullish) (simp add: view_ok_def)
  ultimately show ?thesis by (auto simp: render_iff next_ok_def list_all_iff level_ok_def)
qed

definition numeric_schedule :: ui where
  "numeric_schedule = callback_at failure_row [] 0
     (settle_at 0 QSchedule (Inr (JObj [(js ''next'', js_int 5)]))
       (settle_at 0 QCollections (Inr JNull) (settle_at 0 QAlarms (Inr JNull) mount)))"

theorem render_ok_iff_next_string_witness:
  "ui_reach True failure_row [] numeric_schedule \<and> \<not> (\<exists>n. render numeric_schedule = Inr n)
   \<and> (\<exists>n. render mount = Inr n)"
proof -
  have r: "ui_reach True failure_row [] numeric_schedule"
    unfolding numeric_schedule_def
    by (intro ui_reach.stepped [OF _ ui_step.callback] ui_reach.stepped [OF _ ui_step.query_settles]
        ui_reach.mounted) (simp_all add: mount_def initial_ui_def handler_defs)
  have s: "ui_alarms numeric_schedule = []" "ui_schedule numeric_schedule = JObj [(js ''next'', js_int 5)]"
    by (simp_all add: numeric_schedule_def mount_def initial_ui_def handler_defs settle_def
        all_settled_def alarm_rows_def coalesce_def)
  from render_ok_iff_next_string [OF r] have "\<not> (\<exists>n. render numeric_schedule = Inr n)"
    by (simp add: s js_int_def)
  moreover from render_ok_iff_next_string [OF ui_reach.mounted [of True failure_row "[]"]]
  have "\<exists>n. render mount = Inr n" by (simp add: mount_def initial_ui_def start_load_def)
  ultimately show ?thesis using r by blast
qed

end
