(* ===== verification/AlarmBackend.thy ===== *)
theory AlarmBackend
  imports JsValue
begin

text \<open>
  The out-of-process back end of the alarm plugin (plugins/alarm-demo/main.go): its three
  JSON-RPC handlers. \<open>proc.Serve\<close> is outside the repository; a handler is the function from
  the request parameters to the JSON value it answers. Strings are shown as the console
  receives them, in UTF-16 code units; encoding/json writes the keys of a map in order.
\<close>

definition alarm_entry ::
  "jstring \<Rightarrow> jstring \<Rightarrow> jstring \<Rightarrow> jstring \<Rightarrow> jstring \<Rightarrow> jsval" where
  "alarm_entry aid level device message clock =
     JObj [(js ''at'', JStr clock), (js ''device'', JStr device), (js ''id'', JStr aid),
           (js ''level'', JStr level), (js ''message'', JStr message)]"

text \<open>\<open>clock\<close> is \<open>time.Now().Format("15:04:05")\<close>, read at the time of the call.\<close>

definition backend_alarms :: "jstring \<Rightarrow> jsval" where
  "backend_alarms clock = JArr
     [alarm_entry (js ''A-01'') (js ''warning'') (js ''1#'' @ [0x7A7A, 0x538B, 0x673A])
        ([0x6392, 0x6C14, 0x6E29, 0x5EA6, 0x504F, 0x9AD8, 0xFF08] @ js ''72'' @ [0x00B0]
           @ js ''C'' @ [0xFF09]) clock,
      alarm_entry (js ''A-02'') (js ''critical'') (js ''3#'' @ [0x51B7, 0x5374, 0x6CF5])
        [0x538B, 0x529B, 0x4F4E, 0x4E8E, 0x5DE5, 0x827A, 0x4E0B, 0x9650] clock,
      alarm_entry (js ''A-03'') (js ''warning'') (js ''2#'' @ [0x98CE, 0x673A])
        [0x632F, 0x52A8, 0x901F, 0x5EA6, 0x4E0A, 0x5347, 0x8D8B, 0x52BF] clock]"

definition alarm_stats :: jsval where
  "alarm_stats = JObj [(js ''critical'', js_int 1), (js ''source'', JStr (js ''out-of-process'')),
     (js ''total'', js_int 3), (js ''warning'', js_int 2)]"

text \<open>
  \<open>json.Unmarshal\<close> into the struct with the one field \<open>id\<close>: properties are visited in order,
  their names compared without case; a string sets the field, null leaves it, a value of
  another type is an error that the handler ignores (as it does any other error).
\<close>

definition is_id_key :: "jstring \<Rightarrow> bool" where
  "is_id_key k \<longleftrightarrow> k \<in> set (map js [''id'', ''ID'', ''Id'', ''iD''])"

fun unmarshal_id :: "jstring \<Rightarrow> (jstring \<times> jsval) list \<Rightarrow> jstring" where
  "unmarshal_id acc [] = acc"
| "unmarshal_id acc ((k, v) # ps) =
     unmarshal_id (case v of JStr t \<Rightarrow> if is_id_key k then t else acc | _ \<Rightarrow> acc) ps"

definition ack_alarm :: "jsval \<Rightarrow> jsval" where
  "ack_alarm params =
     JObj [(js ''acked'', JStr (case params of JObj ps \<Rightarrow> unmarshal_id [] ps | _ \<Rightarrow> [])),
           (js ''by'', JStr (js ''operator''))]"

text \<open>The method table of \<open>main\<close>; an unknown method has no handler.\<close>

definition backend_call :: "jstring \<Rightarrow> string \<Rightarrow> jsval \<Rightarrow> jsval option" where
  "backend_call clock m params =
     (if m = ''alarms'' then Some (backend_alarms clock)
      else if m = ''alarm-stats'' then Some alarm_stats
      else if m = ''ack-alarm'' then Some (ack_alarm params)
      else None)"

end
