(* ===== verification/AlarmUiTsx.thy ===== *)
theory AlarmUiTsx
  imports AlarmUi AlarmBackend
begin

text \<open>
  The second version of the alarm page, plugins/alarm-demo/src/ui.tsx: same state, load
  machine and chart as ui.js, fed by the plugin's own \<open>alarms\<close> query instead of the failure
  ledger, with an acknowledge button in every row.
\<close>

definition load_queries_tsx :: "(query_name \<times> jstring) list" where
  "load_queries_tsx = [(QAlarms, js ''alarms''), (QCollections, js ''collections''),
     (QSchedule, js ''schedule'')]"

definition alarm_row_tsx :: "nat \<Rightarrow> jsval \<Rightarrow> jsval jres" where
  "alarm_row_tsx i f =
     bindE (get_prop f (js ''id'')) (\<lambda>v.
       Inr (JObj (spread_onto [(js ''key'', coalesce v (JStr (num_digits i)))] f)))"

definition load_tsx ::
  "jstring \<Rightarrow> jsval jres \<Rightarrow> jsval jres \<Rightarrow> jsval jres \<Rightarrow> ui \<Rightarrow> ui" where
  "load_tsx = run_load alarm_row_tsx"

definition trend_chart_tsx :: "jsval list \<Rightarrow> trend jres" where
  "trend_chart_tsx rows = mount_chart rows"

definition counts_tsx :: "jsval list \<Rightarrow> (jstring \<times> jsval) list jres" where
  "counts_tsx alarms = count_alarms zero_counts alarms"

text \<open>What \<open>ack(String(row.id))\<close> sends to the hub: the parameters of the command.\<close>

definition ack_tsx :: "jsval \<Rightarrow> (jstring \<times> jsval) jres" where
  "ack_tsx row =
     bindE (get_prop row (js ''id'')) (\<lambda>v. bindE (to_str v) (\<lambda>t.
       Inr (js ''ack-alarm'', JObj [(js ''id'', JStr t)])))"

definition level_cell_tsx :: "jsval \<Rightarrow> node jres" where
  "level_cell_tsx v =
     bindE (to_str v) (\<lambda>k. Inr
       (NElem (Tag (js ''span''))
         [objp ''style'' [(js ''color'', case level_color k of Some c \<Rightarrow> JStr c | None \<Rightarrow> JUndef),
                          (js ''fontWeight'', js_int 600)]]
         [case level_label k of Some l \<Rightarrow> NText l | None \<Rightarrow> NVal v]))"

definition ack_cell_tsx :: "jsval \<Rightarrow> node" where
  "ack_cell_tsx row =
     NElem AntdButton [strp ''size'' ''small'', (js ''onClick'', PHandler (OnAck row))]
       [NText [0x786E, 0x8BA4]]"

definition columns_tsx :: "(jstring \<times> attr) list list" where
  "columns_tsx =
     [[(js ''title'', PVal (JStr [0x7EA7, 0x522B])), strp ''dataIndex'' ''level'', strp ''key'' ''level'',
       (js ''width'', PVal (js_int 90)), (js ''render'', PHandler RenderLevel)],
      [(js ''title'', PVal (JStr [0x7F16, 0x53F7])), strp ''dataIndex'' ''id'', strp ''key'' ''id'',
       (js ''width'', PVal (js_int 80))],
      [(js ''title'', PVal (JStr [0x8BBE, 0x5907])), strp ''dataIndex'' ''device'', strp ''key'' ''device''],
      [(js ''title'', PVal (JStr [0x63CF, 0x8FF0])), strp ''dataIndex'' ''message'',
       strp ''key'' ''message'', (js ''ellipsis'', PVal (JBool True))],
      [(js ''title'', PVal (JStr [0x65F6, 0x95F4])), strp ''dataIndex'' ''at'', strp ''key'' ''at'',
       (js ''width'', PVal (js_int 90))],
      [(js ''title'', PVal (JStr [])), strp ''key'' ''ack'', (js ''width'', PVal (js_int 70)),
       (js ''render'', PHandler RenderAck)]]"

text \<open>\<open>String(schedule.next ?? "\<dots>").replace("T", " ").slice(0, 16)\<close>\<close>

definition next_text_tsx :: "jsval \<Rightarrow> jstring jres" where
  "next_text_tsx sched =
     bindE (get_prop sched (js ''next'')) (\<lambda>n.
     bindE (to_str (coalesce n (JStr [0x2014]))) (\<lambda>t.
       Inr (take 16 (replace_first 84 32 t))))"

definition card_style_tsx :: "jstring \<Rightarrow> jstring \<times> attr" where
  "card_style_tsx color =
     objp ''style'' [(js ''flex'', JStr (js ''1 1 160px'')),
       (js ''border'', JStr (js ''1px solid '' @ color)), (js ''borderRadius'', js_int 10),
       (js ''padding'', JStr (js ''10px 14px''))]"

definition card_body_tsx :: "jstring \<Rightarrow> jstring \<Rightarrow> jstring \<Rightarrow> node list" where
  "card_body_tsx label t color =
     [NElem (Tag (js ''div''))
        [objp ''style'' [(js ''fontSize'', js_int 12), (js ''color'', JStr (js ''#8a93a6''))]]
        [NText label],
      NElem (Tag (js ''div''))
        [objp ''style'' [(js ''fontSize'', js_int 26), (js ''fontWeight'', js_int 700),
                         (js ''color'', JStr color)]]
        [NText t]]"

definition caption_tsx :: jstring where
  "caption_tsx = [0x5B8C, 0x5168, 0x81EA, 0x5B9A, 0x4E49, 0x6E32, 0x67D3, 0xFF1A] @ js ''TSX + '' @
     [0x81EA, 0x5E26] @ js '' ECharts'' @ [0xFF08] @ js ''npm '' @ [0x4F9D, 0x8D56, 0xFF0C] @
     js ''esbuild '' @ [0x81EA, 0x6253, 0x5305, 0xFF09]"

definition buttons_tsx :: "bool \<Rightarrow> bool \<Rightarrow> node" where
  "buttons_tsx loading busy =
     NElem AntdSpace []
       [NElem AntdButton [strp ''size'' ''small'', (js ''onClick'', PHandler OnLoad),
           (js ''loading'', PVal (JBool loading))] [NText [0x5237, 0x65B0]],
        NElem AntdButton [strp ''size'' ''small'', strp ''type'' ''primary'',
           (js ''onClick'', PHandler OnTrigger), (js ''loading'', PVal (JBool busy))]
           [NText [0x7ACB, 0x5373, 0x91C7, 0x96C6]]]"

definition alarm_table_tsx :: "bool \<Rightarrow> jsval list \<Rightarrow> node" where
  "alarm_table_tsx loading alarms =
     NElem AntdTable
       [strp ''size'' ''small'', strp ''rowKey'' ''key'', (js ''loading'', PVal (JBool loading)),
        (js ''dataSource'', PVal (JArr alarms)),
        objp ''pagination'' [(js ''pageSize'', js_int 10), (js ''hideOnSinglePage'', JBool True)],
        (js ''columns'', PRecords columns_tsx)] []"

text \<open>
  The component's state, its mount effect and its trigger are those of \<open>ui.js\<close> line for line,
  with this file's queries and row function.
\<close>

definition initial_tsx :: ui where
  "initial_tsx = initial_ui"

definition mount_tsx :: ui where
  "mount_tsx = start_load initial_tsx"

definition trigger_tsx :: "ui \<Rightarrow> ui" where
  "trigger_tsx s = start_trigger s"

definition ui_step_tsx :: "bool \<Rightarrow> jstring \<Rightarrow> ui \<Rightarrow> ui \<Rightarrow> bool" where
  "ui_step_tsx guarded tm = ui_step guarded alarm_row_tsx tm"

definition render_tsx :: "ui \<Rightarrow> node jres" where
  "render_tsx s =
     bindE (counts_tsx (ui_alarms s)) (\<lambda>counts.
     bindE (to_str (counts_get counts (js ''critical''))) (\<lambda>c.
     bindE (to_str (counts_get counts (js ''warning''))) (\<lambda>w.
     bindE (next_text_tsx (ui_schedule s)) (\<lambda>t.
       Inr (NElem (Tag (js ''div''))
         [objp ''style'' [(js ''display'', JStr (js ''flex'')), (js ''flexDirection'', JStr (js ''column'')),
                          (js ''gap'', js_int 14)]]
         [NElem AntdText [strp ''type'' ''secondary'', objp ''style'' [(js ''fontSize'', js_int 12)]]
            [NText caption_tsx],
          NElem (Tag (js ''div''))
            [objp ''style'' [(js ''display'', JStr (js ''flex'')), (js ''gap'', js_int 12),
                             (js ''flexWrap'', JStr (js ''wrap''))]]
            [NElem (Tag (js ''div'')) [strp ''key'' ''c'', card_style_tsx (js ''#f0655a'')]
               (card_body_tsx [0x4E25, 0x91CD, 0x62A5, 0x8B66] c (js ''#f0655a'')),
             NElem (Tag (js ''div'')) [strp ''key'' ''w'', card_style_tsx (js ''#f2b544'')]
               (card_body_tsx [0x8B66, 0x544A] w (js ''#f2b544'')),
             NElem (Tag (js ''div'')) [card_style_tsx (js ''#4d6bfe'')]
               (card_body_tsx [0x4E0B, 0x6B21, 0x91C7, 0x96C6] t (js ''#4d6bfe''))],
          NElem (Tag (js ''div''))
            [objp ''style'' [(js ''border'', JStr (js ''1px solid var(--line-soft, #d9dee8)'')),
                             (js ''borderRadius'', js_int 10),
                             (js ''padding'', JStr (js ''8px 10px''))]]
            [NElem TrendChart [(js ''rows'', PVal (JArr (ui_collections s)))] []],
          buttons_tsx (ui_loading s) (ui_busy s),
          error_node (ui_error s),
          alarm_table_tsx (ui_loading s) (ui_alarms s)])))))"

interpretation tsx: row_contract alarm_row_tsx
  by unfold_locales (auto simp: alarm_row_tsx_def bindE_eq_Inr)

subsection \<open>The page against its own back end\<close>

lemma next_text_tsx_string: "nullish v \<or> (\<exists>t. v = JStr t) \<or> (\<exists>n. v = JNum n) \<or> (\<exists>b. v = JBool b)
    \<Longrightarrow> get_prop sched (js ''next'') = Inr v \<Longrightarrow> \<exists>t. next_text_tsx sched = Inr t"
  by (auto simp: next_text_tsx_def coalesce_def)

lemma render_tsx_ok:
  assumes "count_alarms zero_counts (ui_alarms s) = Inr cs" "next_text_tsx (ui_schedule s) = Inr t"
  shows "\<exists>n. render_tsx s = Inr n"
proof -
  obtain a b where "to_str (counts_get cs (js ''critical'')) = Inr a"
    "to_str (counts_get cs (js ''warning'')) = Inr b"
    using cards_ok [OF assms(1)] by blast
  with assms show ?thesis by (simp add: render_tsx_def counts_tsx_def)
qed

text \<open>
  The ui.tsx page on its own back end: whatever the clock of the back end, after a load
  the alarms are its three entries, the counters agree with what \<open>alarm-stats\<close> reports (one
  critical, two warnings, three in total), and acknowledging row \<open>i\<close> makes the back end
  answer with the identifier of that row.
\<close>

theorem tsx_page_agrees_with_backend:
  "\<exists>rows s'. load_tsx tm (Inr (backend_alarms clock)) (Inr c) (Inr d) s = s'
    \<and> ui_alarms s' = rows \<and> length rows = 3 \<and> ui_error s' = None \<and> \<not> ui_loading s'
    \<and> counts_tsx rows = Inr [(js ''critical'', js_int 1), (js ''warning'', js_int 2)]
    \<and> get_prop alarm_stats (js ''critical'') = Inr (js_int 1)
    \<and> get_prop alarm_stats (js ''warning'') = Inr (js_int 2)
    \<and> get_prop alarm_stats (js ''total'') = Inr (js_int (int (length rows)))
    \<and> list_all (\<lambda>r. \<exists>t params. get_prop r (js ''id'') = Inr (JStr t)
         \<and> ack_tsx r = Inr (js ''ack-alarm'', params)
         \<and> get_prop (ack_alarm params) (js ''acked'') = Inr (JStr t)) rows"
proof -
  define rows where "rows = map (\<lambda>f. JObj (spread_onto [(js ''key'', the (map_of (spread_props f)
      (js ''id'')))] f)) (arr_elems (backend_alarms clock))"
  have ok: "alarm_rows alarm_row_tsx (backend_alarms clock) = Inr rows"
    by (simp add: rows_def alarm_rows_def backend_alarms_def alarm_entry_def alarm_row_tsx_def
        coalesce_def)
  have levels: "map (\<lambda>r. get_prop r (js ''level'')) rows =
     map (\<lambda>l. Inr (JStr (js l))) [''warning'', ''critical'', ''warning'']"
    and ids: "map (\<lambda>r. get_prop r (js ''id'')) rows =
     map (\<lambda>l. Inr (JStr (js l))) [''A-01'', ''A-02'', ''A-03'']"
    by (simp_all add: rows_def backend_alarms_def alarm_entry_def spread_onto_def)
  have len: "length rows = 3" by (simp add: rows_def backend_alarms_def)
  obtain r0 r1 r2 where r: "rows = [r0, r1, r2]"
    using len by (auto simp: numeral_3_eq_3 length_Suc_conv)
  have counts: "counts_tsx rows = Inr [(js ''critical'', js_int 1), (js ''warning'', js_int 2)]"
    using levels rnd_of_nat [of 1] rnd_of_nat [of 2]
    by (simp add: r counts_tsx_def count_alarm_def counts_get_def counts_set_def zero_counts_def
        coalesce_def js_int_def)
  have ack: "\<exists>t params. get_prop x (js ''id'') = Inr (JStr t)
         \<and> ack_tsx x = Inr (js ''ack-alarm'', params)
         \<and> get_prop (ack_alarm params) (js ''acked'') = Inr (JStr t)"
    if "get_prop x (js ''id'') = Inr (JStr u)" for x u
    using that by (simp add: ack_tsx_def ack_alarm_def is_id_key_def)
  have acks: "list_all (\<lambda>r. \<exists>t params. get_prop r (js ''id'') = Inr (JStr t)
         \<and> ack_tsx r = Inr (js ''ack-alarm'', params)
         \<and> get_prop (ack_alarm params) (js ''acked'') = Inr (JStr t)) rows"
    using ids ack unfolding r by simp
  show ?thesis
    using len counts acks
    by (intro exI [of _ rows]) (simp add: load_tsx_def run_load_ok [OF ok] alarm_stats_def)
qed

end
