(* ===== verification/GoErrors.thy ===== *)
theory GoErrors
  imports Prelude
begin

text \<open>
  Go errors as values, and the error classes of app/errs/errors.go. An error is a sentinel
  (the name of its variable, which stands for its identity, and its text), a \<open>syscall.Errno\<close>
  with the text the system gives it, or an error with a text that wraps other errors
  (\<open>fmt.Errorf\<close> with \<open>%w\<close>, \<open>errors.Join\<close>, \<open>fs.PathError\<close>, \<open>SourceError\<close>). An errno is the
  system's number, or one that Go's syscall package makes up on Windows (from \<open>1 << 29\<close> on, so
  that no system call returns it) for the name it has on Unix.
\<close>

datatype errno = SysErr nat | GoErr string

datatype err = Sentinel string string | Errno errno string | Wrapped string "err list"

type_synonym 'a res = "err + 'a"

datatype platform = Unix | Windows

fun err_text :: "err \<Rightarrow> string" where
  "err_text (Sentinel v s) = s"
| "err_text (Errno n s) = s"
| "err_text (Wrapped s es) = s"

text \<open>Sentinels of the standard library and of app/errs.\<close>

definition os_not_exist :: err where "os_not_exist = Sentinel ''fs.ErrNotExist'' ''file does not exist''"
definition os_permission :: err where "os_permission = Sentinel ''fs.ErrPermission'' ''permission denied''"
definition ctx_deadline :: err where "ctx_deadline = Sentinel ''context.DeadlineExceeded'' ''context deadline exceeded''"
definition ctx_canceled :: err where "ctx_canceled = Sentinel ''context.Canceled'' ''context canceled''"

definition err_not_found :: err where "err_not_found = Sentinel ''ErrNotFound'' ''not found''"
definition err_permission_denied :: err where "err_permission_denied = Sentinel ''ErrPermissionDenied'' ''permission denied''"
definition err_unavailable :: err where "err_unavailable = Sentinel ''ErrUnavailable'' ''resource unavailable''"
definition err_timeout :: err where "err_timeout = Sentinel ''ErrTimeout'' ''operation timed out''"
definition err_io :: err where "err_io = Sentinel ''ErrIO'' ''io error''"
definition err_file_unstable :: err where "err_file_unstable = Sentinel ''ErrFileUnstable'' ''file not stable''"
definition err_invalid_encoding :: err where "err_invalid_encoding = Sentinel ''ErrInvalidEncoding'' ''invalid CSV encoding''"
definition err_malformed_csv :: err where "err_malformed_csv = Sentinel ''ErrMalformedCSV'' ''malformed CSV''"
definition err_invalid_config :: err where
  "err_invalid_config = Sentinel ''ErrInvalidConfig'' ''invalid application configuration''"

definition bad_conn :: err where "bad_conn = Sentinel ''driver.ErrBadConn'' ''driver: bad connection''"
definition err_storage_connection :: err where
  "err_storage_connection = Sentinel ''ErrStorageConnection'' ''storage connection error''"
definition err_storage_timeout :: err where
  "err_storage_timeout = Sentinel ''ErrStorageTimeout'' ''storage timeout''"
definition err_storage_auth :: err where
  "err_storage_auth = Sentinel ''ErrStorageAuth'' ''storage authentication error''"
definition err_storage_constraint :: err where
  "err_storage_constraint = Sentinel ''ErrStorageConstraint'' ''storage constraint error''"
definition err_storage_transient :: err where
  "err_storage_transient = Sentinel ''ErrStorageTransient'' ''storage transient error''"
definition err_storage_permanent :: err where
  "err_storage_permanent = Sentinel ''ErrStoragePermanent'' ''storage permanent error''"

definition err_source_changed :: err where
  "err_source_changed = Sentinel ''ErrSourceChanged'' ''source changed while reading''"

definition err_invalid_file :: err where
  "err_invalid_file = Sentinel ''ErrInvalidFile'' ''invalid file identity''"

lemmas sentinel_defs = os_not_exist_def os_permission_def ctx_deadline_def ctx_canceled_def
  err_not_found_def err_permission_denied_def err_unavailable_def err_timeout_def err_io_def
  err_file_unstable_def err_invalid_encoding_def err_malformed_csv_def err_invalid_config_def
  bad_conn_def err_storage_connection_def err_storage_timeout_def err_storage_auth_def
  err_storage_constraint_def err_storage_transient_def err_storage_permanent_def

text \<open>
  \<open>syscall.ENOENT\<close>, \<open>EACCES\<close> and \<open>EPERM\<close>: asm-generic and darwin agree on the numbers; on Windows
  the first is \<open>ERROR_FILE_NOT_FOUND\<close>, the others are made up.
\<close>

definition errno_enoent :: errno where "errno_enoent = SysErr 2"

definition errno_eacces :: "platform \<Rightarrow> errno" where
  "errno_eacces p = (case p of Unix \<Rightarrow> SysErr 13 | Windows \<Rightarrow> GoErr ''EACCES'')"

definition errno_eperm :: "platform \<Rightarrow> errno" where
  "errno_eperm p = (case p of Unix \<Rightarrow> SysErr 1 | Windows \<Rightarrow> GoErr ''EPERM'')"

text \<open>
  \<open>syscall.Errno.Is\<close> for the two classes the program asks for, per platform: on Windows also
  \<open>ERROR_PATH_NOT_FOUND\<close>, \<open>ERROR_BAD_NETPATH\<close> and \<open>ERROR_ACCESS_DENIED\<close>.
\<close>

definition errno_is :: "platform \<Rightarrow> errno \<Rightarrow> err \<Rightarrow> bool" where
  "errno_is p n t =
     ((t = os_not_exist \<and> (n = errno_enoent \<or> p = Windows \<and> n \<in> {SysErr 3, SysErr 53})) \<or>
      (t = os_permission \<and> (n \<in> {errno_eacces p, errno_eperm p} \<or> p = Windows \<and> n = SysErr 5)))"

text \<open>\<open>errors.Is\<close>.\<close>

fun err_is :: "platform \<Rightarrow> err \<Rightarrow> err \<Rightarrow> bool" where
  "err_is p (Sentinel v s) t \<longleftrightarrow> t = Sentinel v s"
| "err_is p (Errno n s) t \<longleftrightarrow> (case t of Errno m _ \<Rightarrow> n = m | _ \<Rightarrow> errno_is p n t)"
| "err_is p (Wrapped s es) t \<longleftrightarrow> list_ex (\<lambda>e. err_is p e t) es"

text \<open>\<open>SourceError\<close> and \<open>Sourcef(class, "path %q: %w", path, err)\<close>.\<close>

definition source_error :: "err \<Rightarrow> err \<Rightarrow> err" where
  "source_error class e = Wrapped (err_text class @ '': '' @ err_text e) [class, e]"

definition sourcef_path :: "err \<Rightarrow> string \<Rightarrow> err \<Rightarrow> err" where
  "sourcef_path class quoted e =
     source_error class (Wrapped (''path '' @ quoted @ '': '' @ err_text e) [e])"

text \<open>Windows network-path codes as errors_windows.go writes them.\<close>

definition network_errnos :: "errno list" where
  "network_errnos = map SysErr [0x35, 0x43, 0x4C3, 0x407, 0x40, 0x52B, 0x79]"

definition network_unavailable :: "platform \<Rightarrow> err \<Rightarrow> bool" where
  "network_unavailable p e =
     (case p of Windows \<Rightarrow> list_ex (\<lambda>n. err_is p e (Errno n '''')) network_errnos | Unix \<Rightarrow> False)"

text \<open>
  \<open>ClassifySourceError\<close>. The platform's numbers for ENETDOWN, ENETUNREACH and EHOSTUNREACH are
  an argument; the path appears quoted in the text only.
\<close>

definition classify_source_error :: "platform \<Rightarrow> errno list \<Rightarrow> string \<Rightarrow> err \<Rightarrow> err" where
  "classify_source_error p net quoted e =
     (if network_unavailable p e then sourcef_path err_unavailable quoted e
      else if err_is p e os_not_exist \<or> err_is p e (Errno errno_enoent '''')
        then sourcef_path err_not_found quoted e
      else if err_is p e os_permission \<or> err_is p e (Errno (errno_eacces p) '''')
        then sourcef_path err_permission_denied quoted e
      else if list_ex (\<lambda>n. err_is p e (Errno n '''')) net then sourcef_path err_unavailable quoted e
      else if err_is p e ctx_deadline then sourcef_path err_timeout quoted e
      else sourcef_path err_io quoted e)"

subsection \<open>Facts\<close>

lemma err_is_sourcef:
  "err_is p (sourcef_path class quoted e) t \<longleftrightarrow> err_is p class t \<or> err_is p e t"
  by (simp add: sourcef_path_def source_error_def)

definition app_classes :: "err list" where
  "app_classes = [err_not_found, err_permission_denied, err_unavailable, err_timeout, err_io, err_file_unstable]"

text \<open>The error at the end of a chain of wrappings, such as the errno in a \<open>fs.PathError\<close>.\<close>

fun wraps :: "err \<Rightarrow> err \<Rightarrow> bool" where
  "wraps l (Wrapped s es) \<longleftrightarrow> (case es of [e] \<Rightarrow> wraps l e | _ \<Rightarrow> False)"
| "wraps l e \<longleftrightarrow> l = e"

lemma err_is_wraps: "wraps l e \<Longrightarrow> err_is p e t \<longleftrightarrow> err_is p l t"
  by (induction l e rule: wraps.induct) (auto split: list.splits)

text \<open>The class of such an error, by platform and number.\<close>

definition errno_class :: "platform \<Rightarrow> errno list \<Rightarrow> errno \<Rightarrow> err" where
  "errno_class p net n =
     (case p of
        Unix \<Rightarrow> (if n = SysErr 2 then err_not_found else if n \<in> {SysErr 1, SysErr 13} then err_permission_denied
                 else if n \<in> set net then err_unavailable else err_io)
      | Windows \<Rightarrow>
          (if n \<in> SysErr ` {53, 64, 67, 121, 1031, 1219, 1323} then err_unavailable
           else if n \<in> {SysErr 2, SysErr 3} then err_not_found
           else if n \<in> {SysErr 5, GoErr ''EACCES'', GoErr ''EPERM''} then err_permission_denied
           else if n \<in> set net then err_unavailable else err_io))"

definition leaf_class :: "platform \<Rightarrow> errno list \<Rightarrow> err \<Rightarrow> err" where
  "leaf_class p net l =
     (case l of
        Errno n s \<Rightarrow> errno_class p net n
      | _ \<Rightarrow> if l = os_not_exist then err_not_found else if l = os_permission then err_permission_denied
             else if l = ctx_deadline then err_timeout else err_io)"

lemma err_is_any: "list_ex (\<lambda>n. err_is p (Errno m s) (Errno n '''')) ns \<longleftrightarrow> m \<in> set ns"
  by (auto simp: list_ex_iff)

lemma classify_leaf:
  assumes "wraps l e" "\<not> (\<exists>s es. l = Wrapped s es)"
  shows "classify_source_error p net q e = sourcef_path (leaf_class p net l) q e"
proof (cases l)
  case (Errno n s)
  then show ?thesis
    unfolding classify_source_error_def network_unavailable_def err_is_wraps [OF assms(1)] Errno err_is_any
    by (cases p) (auto simp: leaf_class_def errno_class_def network_errnos_def errno_is_def sentinel_defs
        errno_enoent_def errno_eacces_def errno_eperm_def)
next
  case (Sentinel v s)
  then show ?thesis
    unfolding classify_source_error_def network_unavailable_def err_is_wraps [OF assms(1)]
    by (cases p) (auto simp: leaf_class_def sentinel_defs list_ex_iff)
qed (use assms(2) in auto)

subsection \<open>Storage errors (storage.go)\<close>

definition lower_char :: "char \<Rightarrow> char" where
  "lower_char c = (if CHR ''A'' \<le> c \<and> c \<le> CHR ''Z'' then char_of (of_char c + 32 :: nat) else c)"

fun equal_fold_from :: "string \<Rightarrow> string \<Rightarrow> bool" where
  "equal_fold_from (a # as) (b # bs) \<longleftrightarrow>
     (if lower_char a \<noteq> lower_char b then False else equal_fold_from as bs)"
| "equal_fold_from _ _ \<longleftrightarrow> True"

definition equal_fold :: "string \<Rightarrow> string \<Rightarrow> bool" where
  "equal_fold a b \<longleftrightarrow> (if length a \<noteq> length b then False else equal_fold_from a b)"

definition contains_fold :: "string \<Rightarrow> string \<Rightarrow> bool" where
  "contains_fold s sub \<longleftrightarrow>
     (if length sub > length s then False
      else list_ex (\<lambda>i. equal_fold (take (length sub) (drop i s)) sub) [0..<length s - length sub + 1])"

definition contains_any :: "string \<Rightarrow> string list \<Rightarrow> bool" where
  "contains_any s needles \<longleftrightarrow> list_ex (\<lambda>n. length n > 0 \<and> contains_fold s n) needles"

definition sourcef_op :: "err \<Rightarrow> string \<Rightarrow> err \<Rightarrow> err" where
  "sourcef_op class op e = source_error class (Wrapped (op @ '': '' @ err_text e) [e])"

definition auth_words :: "string list" where
  "auth_words = [''access denied'', ''authentication'', ''password'', ''authorization'']"

definition constraint_words :: "string list" where
  "constraint_words = [''duplicate'', ''constraint'', ''unique'', ''primary key'']"

definition transient_words :: "string list" where
  "transient_words = [''deadlock'', ''database is locked'', ''sqlite_busy'', ''busy timeout'',
     ''connection refused'', ''broken pipe'', ''lost connection'', ''too many connections'']"

definition classify_storage_error :: "platform \<Rightarrow> string \<Rightarrow> err \<Rightarrow> err" where
  "classify_storage_error p op e =
     (if err_is p e ctx_deadline then sourcef_op err_storage_timeout op e
      else if err_is p e bad_conn then sourcef_op err_storage_connection op e
      else (let msg = err_text e in
        if contains_any msg auth_words then sourcef_op err_storage_auth op e
        else if contains_any msg constraint_words then sourcef_op err_storage_constraint op e
        else if contains_any msg transient_words then sourcef_op err_storage_transient op e
        else sourcef_op err_storage_permanent op e))"

lemma equal_fold_from_iff:
  "length a = length b \<Longrightarrow> equal_fold_from a b \<longleftrightarrow> map lower_char a = map lower_char b"
  by (induction a b rule: list_induct2) auto

lemma equal_fold_iff: "equal_fold a b \<longleftrightarrow> map lower_char a = map lower_char b"
  using map_eq_imp_length_eq by (auto simp: equal_fold_def equal_fold_from_iff)

lemma contains_fold_iff:
  "contains_fold s sub \<longleftrightarrow> (\<exists>pre mid post. s = pre @ mid @ post \<and> map lower_char mid = map lower_char sub)"
proof
  assume "contains_fold s sub"
  then obtain i where "map lower_char (take (length sub) (drop i s)) = map lower_char sub"
    unfolding contains_fold_def list_ex_iff equal_fold_iff by (metis (no_types, lifting))
  moreover have "s = take i s @ take (length sub) (drop i s) @ drop (length sub) (drop i s)"
    by (metis append_take_drop_id)
  ultimately show "\<exists>pre mid post. s = pre @ mid @ post \<and> map lower_char mid = map lower_char sub" by blast
next
  assume "\<exists>pre mid post. s = pre @ mid @ post \<and> map lower_char mid = map lower_char sub"
  then obtain pre mid post where s: "s = pre @ mid @ post" and m: "map lower_char mid = map lower_char sub" by blast
  have l: "length mid = length sub" using m by (rule map_eq_imp_length_eq)
  have "length pre \<in> set [0..<length s - length sub + 1]" using s l by auto
  moreover have "equal_fold (take (length sub) (drop (length pre) s)) sub"
    using s l m by (simp add: equal_fold_iff)
  ultimately show "contains_fold s sub"
    using s l unfolding contains_fold_def list_ex_iff by (metis (no_types, lifting) le_add1 le_add2 le_trans length_append not_less)
qed

subsection \<open>Quoted text\<close>

text \<open>
  \<open>strconv.Quote\<close> (the verb \<open>%q\<close>) on ASCII; a byte of a printable non-ASCII rune is kept, as
  the function keeps the rune.
\<close>

definition hex_digit :: "nat \<Rightarrow> char" where
  "hex_digit n = char_of (if n < 10 then 48 + n else 87 + n)"

definition quote_char :: "char \<Rightarrow> string" where
  "quote_char c =
     (let n = of_char c :: nat; bs = char_of (92 :: nat) in
      if n = 34 \<or> n = 92 then [bs, c]
      else if n = 7 then [bs, CHR ''a''] else if n = 8 then [bs, CHR ''b'']
      else if n = 12 then [bs, CHR ''f''] else if n = 10 then [bs, CHR ''n'']
      else if n = 13 then [bs, CHR ''r''] else if n = 9 then [bs, CHR ''t'']
      else if n = 11 then [bs, CHR ''v'']
      else if n < 32 \<or> n = 127 then [bs, CHR ''x'', hex_digit (n div 16), hex_digit (n mod 16)]
      else [c])"

definition go_quote :: "string \<Rightarrow> string" where
  "go_quote s = [char_of (34 :: nat)] @ concat (map quote_char s) @ [char_of (34 :: nat)]"

subsection \<open>The classes\<close>

text \<open>C19. A system error or a sentinel inside any number of wrappings, other than the program's own
classes, is given exactly one of these classes: \<open>errors.Is\<close> on the classified error is true for that
class and false for the others. Which one it is depends on the platform and the number alone: missing
files are 2 on Unix and 2 and 3 on Windows, where 53 (bad network path), which Go also counts
as a missing file, and the six other codes of errors_windows.go are unavailable; permission is 1 and 13
on Unix, 5 and the two names Go makes up on Windows (where 13 is invalid data, an I/O error);
the network numbers of Go are unavailable. Windows's 1231, 1232 and 1326 (network and host
unreachable, logon failure), which three of the codes are named after, are I/O errors.\<close>

theorem source_errors_get_one_class:
  assumes "wraps l e" "l \<notin> set app_classes" "\<not> (\<exists>s es. l = Wrapped s es)"
  shows "list_all (\<lambda>c. err_is p (classify_source_error p net q e) c = (c = leaf_class p net l)) app_classes \<and>
    (\<forall>n \<in> {1231, 1232, 1326}. SysErr n \<notin> set net \<longrightarrow> leaf_class Windows net (Errno (SysErr n) s) = err_io)"
proof (intro conjI)
  have "\<not> err_is p e c" if "c \<in> set app_classes" for c
    using that assms(2,3) unfolding err_is_wraps [OF assms(1)]
    by (cases l) (auto simp: app_classes_def errno_is_def sentinel_defs)
  moreover have "err_is p (leaf_class p net l) c \<longleftrightarrow> c = leaf_class p net l" for c
    by (auto simp: leaf_class_def errno_class_def sentinel_defs split: err.split platform.split)
  ultimately show "list_all (\<lambda>c. err_is p (classify_source_error p net q e) c = (c = leaf_class p net l)) app_classes"
    unfolding classify_leaf [OF assms(1,3)] by (simp add: list_all_iff err_is_sourcef)
qed (auto simp: leaf_class_def errno_class_def)

definition bad_net_path :: err where
  "bad_net_path = Wrapped ''stat share: bad net path'' [Errno (SysErr 53) ''bad net path'']"

theorem source_errors_get_one_class_witness:
  "err_is Windows bad_net_path os_not_exist \<and>
   err_is Windows (classify_source_error Windows [] ''share'' bad_net_path) err_unavailable \<and>
   \<not> err_is Windows (classify_source_error Windows [] ''share'' bad_net_path) err_not_found"
proof -
  have l: "wraps (Errno (SysErr 53) ''bad net path'') bad_net_path" by (simp add: bad_net_path_def)
  have "err_is Windows bad_net_path os_not_exist"
    by (simp add: bad_net_path_def errno_is_def os_not_exist_def)
  moreover from source_errors_get_one_class [OF l, of Windows "[]" "''share''"] show ?thesis
    using calculation by (simp add: app_classes_def leaf_class_def errno_class_def) (simp add: sentinel_defs)
qed

text \<open>Driver messages are matched without regard to ASCII case: a message contains a word when
some part of it equals the word letter by letter up to case, so a storage error whose text has
none of the listed words, and that wraps neither a deadline nor a bad connection, is permanent.\<close>

theorem storage_words_ignore_case:
  "(contains_fold s w \<longleftrightarrow> (\<exists>pre mid post. s = pre @ mid @ post \<and> map lower_char mid = map lower_char w)) \<and>
   (err_is p e ctx_deadline \<or> err_is p e bad_conn \<or>
    list_ex (contains_fold (err_text e)) (auth_words @ constraint_words @ transient_words) \<or>
    classify_storage_error p op e = sourcef_op err_storage_permanent op e)"
proof (rule conjI)
  have "contains_any (err_text e) ws \<Longrightarrow> list_ex (contains_fold (err_text e)) ws" for ws
    by (auto simp: contains_any_def list_ex_iff)
  from this [of auth_words] this [of constraint_words] this [of transient_words]
  show "err_is p e ctx_deadline \<or> err_is p e bad_conn \<or>
    list_ex (contains_fold (err_text e)) (auth_words @ constraint_words @ transient_words) \<or>
    classify_storage_error p op e = sourcef_op err_storage_permanent op e"
    unfolding classify_storage_error_def Let_def list_ex_append by (simp split: if_split)
qed (rule contains_fold_iff)

end
