(* ===== verification/Dates.thy ===== *)
theory Dates
  imports Prelude
begin

text \<open>
  Business dates (CollectionDate of app/model/model.go) and the part of Go's time package
  they rest on: the proleptic Gregorian calendar, \<open>Date\<close>, \<open>AddDate\<close> by days, the layout
  \<open>2006-01-02\<close> and its parser. An instant is the number of nanoseconds since Go's zero time
  (midnight of 1 January of year 1, UTC), so the zero time is 0; a date is the number of
  days since that day.
\<close>

subsection \<open>Instants\<close>

type_synonym time = int

type_synonym duration = int

definition day_nanos :: int where
  "day_nanos = 86400 * 1000000000"

definition max_duration :: int where
  "max_duration = 2 ^ 63 - 1"

text \<open>\<open>Time.Sub\<close>: the difference, saturated to an int64 number of nanoseconds.\<close>

definition time_sub :: "time \<Rightarrow> time \<Rightarrow> duration" where
  "time_sub a b = max (- max_duration - 1) (min max_duration (a - b))"

subsection \<open>The calendar\<close>

definition leap :: "int \<Rightarrow> bool" where
  "leap y \<longleftrightarrow> 4 dvd y \<and> (\<not> 100 dvd y \<or> 400 dvd y)"

definition year_len :: "int \<Rightarrow> int" where
  "year_len y = (if leap y then 366 else 365)"

definition year_start :: "int \<Rightarrow> int" where
  "year_start y = 365 * (y - 1) + (y - 1) div 4 - (y - 1) div 100 + (y - 1) div 400"

definition month_starts :: "bool \<Rightarrow> int list" where
  "month_starts l = (if l then [0, 31, 60, 91, 121, 152, 182, 213, 244, 274, 305, 335]
                     else [0, 31, 59, 90, 120, 151, 181, 212, 243, 273, 304, 334])"

definition month_end :: "bool \<Rightarrow> int \<Rightarrow> int" where
  "month_end l m = (if m = 12 then (if l then 366 else 365) else month_starts l ! nat m)"

definition days_in_month :: "int \<Rightarrow> int \<Rightarrow> int" where
  "days_in_month y m = month_end (leap y) m - month_starts (leap y) ! nat (m - 1)"

text \<open>Year and day of the year of a day number: cycles of 400, 100, 4 years and 1 year.\<close>

definition year_yday :: "int \<Rightarrow> int \<times> int" where
  "year_yday n =
     (let e = n div 146097; r0 = n mod 146097; c = min 3 (r0 div 36524); r1 = r0 - 36524 * c;
          q = r1 div 1461; r2 = r1 - 1461 * q; a = min 3 (r2 div 365)
      in (400 * e + 100 * c + 4 * q + a + 1, r2 - 365 * a))"

definition month_of :: "bool \<Rightarrow> int \<Rightarrow> nat" where
  "month_of l yd = length (filter (\<lambda>s. s \<le> yd) (month_starts l))"

type_synonym civil = "int \<times> int \<times> int"

definition civil_of_day :: "int \<Rightarrow> civil" where
  "civil_of_day n =
     (let (y, yd) = year_yday n; m = month_of (leap y) yd
      in (y, int m, yd - month_starts (leap y) ! (m - 1) + 1))"

definition day_of_civil :: "civil \<Rightarrow> int" where
  "day_of_civil = (\<lambda>(y, m, d). year_start y + month_starts (leap y) ! nat (m - 1) + (d - 1))"

definition valid_civil :: "civil \<Rightarrow> bool" where
  "valid_civil = (\<lambda>(y, m, d). 1 \<le> m \<and> m \<le> 12 \<and> 1 \<le> d \<and> d \<le> days_in_month y m)"

subsection \<open>Years\<close>

lemma div_floor_eq: "0 \<le> r \<Longrightarrow> r < k \<Longrightarrow> (k * b + r) div k = (b::int)"
  by simp

lemma year_start_parts:
  assumes "0 \<le> c" "c \<le> 3" "0 \<le> q" "q \<le> 24" "0 \<le> a" "a \<le> 3"
  shows "year_start (400 * e + 100 * c + 4 * q + a + 1) = 146097 * e + 36524 * c + 1461 * q + 365 * a"
proof -
  have "(400 * e + 100 * c + 4 * q + a) div 4 = 100 * e + 25 * c + q"
    using div_floor_eq [of a 4 "100 * e + 25 * c + q"] assms by (simp add: algebra_simps)
  moreover have "(400 * e + 100 * c + 4 * q + a) div 100 = 4 * e + c"
    using div_floor_eq [of "4 * q + a" 100 "4 * e + c"] assms by (simp add: algebra_simps)
  moreover have "(400 * e + 100 * c + 4 * q + a) div 400 = e"
    using div_floor_eq [of "100 * c + 4 * q + a" 400 e] assms by (simp add: algebra_simps)
  ultimately show ?thesis by (simp add: year_start_def)
qed

lemma div_pred:
  assumes "0 < (k::int)"
  shows "(y - 1) div k = y div k - (if k dvd y then 1 else 0)"
proof (cases "k dvd y")
  case True
  then obtain c where y: "y = k * c" by (elim dvdE)
  have "(k * (c - 1) + (k - 1)) div k = c - 1" using assms by (intro div_floor_eq) auto
  with assms show ?thesis by (simp add: y algebra_simps)
next
  case False
  define q where "q = y div k"
  define r where "r = y mod k"
  have y: "y = k * q + r" by (simp add: q_def r_def)
  have "0 \<le> r" "r < k" "r \<noteq> 0" using assms False by (auto simp: r_def mod_eq_0_iff_dvd)
  then have "(k * q + (r - 1)) div k = q" by (intro div_floor_eq) auto
  then have "(y - 1) div k = q" using y by (simp add: algebra_simps)
  with False show ?thesis by (simp add: q_def)
qed

lemma year_start_Suc: "year_start (y + 1) = year_start y + year_len y"
proof -
  have "400 dvd y \<Longrightarrow> 100 dvd y" "100 dvd y \<Longrightarrow> 4 dvd y" by (auto elim: dvd_trans [rotated])
  then show ?thesis
    by (simp add: year_start_def year_len_def leap_def div_pred [of 4] div_pred [of 100] div_pred [of 400])
qed

lemma year_start_mono: "y < z \<Longrightarrow> year_start y + year_len y \<le> year_start z"
proof (induction "nat (z - y)" arbitrary: z)
  case (Suc k)
  show ?case
  proof (cases "z = y + 1")
    case True
    then show ?thesis by (simp add: year_start_Suc)
  next
    case False
    with Suc.prems Suc.hyps(1) [of "z - 1"] Suc.hyps(2)
    have "year_start y + year_len y \<le> year_start (z - 1)" by auto
    also have "\<dots> \<le> year_start z" using year_start_Suc [of "z - 1"] by (simp add: year_len_def)
    finally show ?thesis .
  qed
qed simp

lemma year_yday_spec:
  assumes "year_yday n = (y, yd)"
  shows "n = year_start y + yd \<and> 0 \<le> yd \<and> yd < year_len y"
proof -
  define e where "e = n div 146097"
  define r0 where "r0 = n mod 146097"
  define c where "c = min 3 (r0 div 36524)"
  define r1 where "r1 = r0 - 36524 * c"
  define q where "q = r1 div 1461"
  define r2 where "r2 = r1 - 1461 * q"
  define a where "a = min 3 (r2 div 365)"
  have n: "n = 146097 * e + r0" and r0: "0 \<le> r0" "r0 < 146097" by (simp_all add: e_def r0_def)
  have c: "0 \<le> c" "c \<le> 3" "0 \<le> r1" "r1 \<le> 36524" "c < 3 \<Longrightarrow> r1 < 36524"
    using r0 by (auto simp: c_def r1_def min_def)
  have q: "0 \<le> q" "q \<le> 24" using c by (simp_all add: q_def)
  have r2: "0 \<le> r2" "r2 < 1461" by (simp_all add: r2_def q_def minus_mult_div_eq_mod)
  have a: "0 \<le> a" "a \<le> 3" using r2 by (auto simp: a_def min_def)
  have yd: "yd = r2 - 365 * a" and y: "y = 400 * e + 100 * c + 4 * q + a + 1"
    using assms [unfolded year_yday_def Let_def, folded e_def r0_def, folded c_def, folded r1_def,
        folded q_def, folded r2_def, folded a_def] by simp_all
  have start: "n = year_start y + yd"
    using year_start_parts [of c q a e] c q a by (simp add: y n yd r1_def r2_def)
  have yd_low: "0 \<le> yd" "yd < 365 \<or> (a = 3 \<and> yd = 365)"
    using r2 unfolding yd a_def min_def by (auto split: if_splits)
  have "leap y" if "a = 3" "yd = 365"
  proof (cases "q = 24")
    case True
    with that c r2 have "\<not> c < 3" by (intro notI) (auto simp: yd r2_def)
    with c(2) have "c = 3" by simp
    with True that have "y = 400 * (e + 1)" by (simp add: y)
    then show ?thesis by (auto simp: leap_def)
  next
    case False
    with q have 4: "0 < 4 * (q + 1)" "4 * (q + 1) < 100" by auto
    have "y = 100 * (4 * e + c) + 4 * (q + 1)" using that by (simp add: y)
    then have "100 dvd y \<longleftrightarrow> 100 dvd 4 * (q + 1)" by (metis dvd_add_right_iff dvd_triv_left)
    with 4 have "\<not> 100 dvd y" using zdvd_not_zless by blast
    moreover have "y = 4 * (100 * e + 25 * c + q + 1)" using that by (simp add: y)
    ultimately show ?thesis by (auto simp: leap_def)
  qed
  with yd_low start show ?thesis by (auto simp: year_len_def)
qed

subsection \<open>Months\<close>

lemma month_of_spec:
  assumes "0 \<le> yd" "yd < (if l then 366 else 365)"
  shows "1 \<le> month_of l yd \<and> month_of l yd \<le> 12 \<and> month_starts l ! (month_of l yd - 1) \<le> yd \<and>
    yd < month_end l (int (month_of l yd))"
  using assms by (cases l) (auto simp: month_of_def month_starts_def month_end_def)

lemma month_cases:
  "1 \<le> m \<Longrightarrow> m \<le> 12 \<Longrightarrow> m \<in> {1, 2, 3, 4, 5, 6, 7, 8, 9, 10, 11, 12::int}"
  by simp presburger

lemma month_bounds:
  assumes "1 \<le> m" "m \<le> 12"
  shows "0 \<le> month_starts l ! nat (m - 1) \<and> month_starts l ! nat (m - 1) < month_end l m \<and>
    month_end l m \<le> (if l then 366 else 365)"
  using month_cases [OF assms] by (cases l) (auto simp: month_starts_def month_end_def)

lemma month_next:
  assumes "1 \<le> m" "m < m'" "m' \<le> 12"
  shows "month_end l m \<le> month_starts l ! nat (m' - 1)"
proof -
  have "sorted (month_starts l)" by (simp add: month_starts_def)
  moreover have "nat m \<le> nat (m' - 1)" "nat (m' - 1) < length (month_starts l)"
    using assms by (auto simp: month_starts_def)
  ultimately have "month_starts l ! nat m \<le> month_starts l ! nat (m' - 1)"
    by (rule sorted_nth_mono)
  with assms show ?thesis by (simp add: month_end_def)
qed

subsection \<open>Days and civil dates\<close>

lemma civil_of_day_spec:
  "valid_civil (civil_of_day n) \<and> day_of_civil (civil_of_day n) = n"
proof -
  obtain y yd where yy: "year_yday n = (y, yd)" by fastforce
  define m where "m = month_of (leap y) yd"
  have n: "n = year_start y + yd" and b: "0 \<le> yd" "yd < year_len y"
    using year_yday_spec [OF yy] by auto
  have m: "1 \<le> m" "m \<le> 12" "month_starts (leap y) ! (m - 1) \<le> yd" "yd < month_end (leap y) (int m)"
    using month_of_spec [of yd "leap y"] b by (auto simp: m_def year_len_def)
  have c: "civil_of_day n = (y, int m, yd - month_starts (leap y) ! (m - 1) + 1)"
    by (simp add: civil_of_day_def yy m_def Let_def)
  have i: "nat (int m - 1) = m - 1" by simp
  show ?thesis
    unfolding c using m by (auto simp: valid_civil_def day_of_civil_def days_in_month_def i n)
qed

lemma day_of_civil_bounds:
  assumes "valid_civil (y, m, d)"
  shows "year_start y \<le> day_of_civil (y, m, d)" "day_of_civil (y, m, d) < year_start y + year_len y"
  using assms month_bounds [of m "leap y"]
  by (auto simp: valid_civil_def day_of_civil_def days_in_month_def year_len_def split: if_splits)

lemma day_of_civil_less:
  assumes v: "valid_civil (y, m, d)" "valid_civil (y', m', d')"
    and less: "y < y' \<or> (y = y' \<and> (m < m' \<or> (m = m' \<and> d < d')))"
  shows "day_of_civil (y, m, d) < day_of_civil (y', m', d')"
proof (cases "y = y'")
  case False
  with less have "y < y'" by simp
  with year_start_mono [of y y'] day_of_civil_bounds(2) [OF v(1)] day_of_civil_bounds(1) [OF v(2)]
  show ?thesis by linarith
next
  case y: True
  show ?thesis
  proof (cases "m = m'")
    case True
    with y less show ?thesis by (simp add: day_of_civil_def)
  next
    case False
    with y less have "m < m'" by simp
    with v month_next [of m m' "leap y"] show ?thesis
      by (auto simp: day_of_civil_def valid_civil_def days_in_month_def y)
  qed
qed

lemma day_of_civil_inject:
  assumes "valid_civil a" "valid_civil b" "day_of_civil a = day_of_civil b"
  shows "a = b"
proof (rule ccontr)
  assume "a \<noteq> b"
  moreover obtain y m d y' m' d' where ab: "a = (y, m, d)" "b = (y', m', d')"
    by (metis prod_cases3)
  ultimately have "(y < y' \<or> (y = y' \<and> (m < m' \<or> (m = m' \<and> d < d')))) \<or>
    (y' < y \<or> (y' = y \<and> (m' < m \<or> (m' = m \<and> d' < d))))" by auto
  with day_of_civil_less assms ab show False by fastforce
qed

lemma civil_of_day_of_civil: "valid_civil c \<Longrightarrow> civil_of_day (day_of_civil c) = c"
  using civil_of_day_spec day_of_civil_inject by blast

lemma civil_of_day_inject [simp]: "civil_of_day a = civil_of_day b \<longleftrightarrow> a = b"
  by (metis civil_of_day_spec)

subsection \<open>Collection dates\<close>

text \<open>
  The struct holds midnight UTC of its calendar date, so it is its day number. The fields of
  \<open>time.Time\<close> that Go compares with \<open>==\<close> are functions of it, since \<open>time.Date\<close> in UTC
  builds it.
\<close>

datatype collection_date = CDate (day: int)

instantiation collection_date :: linorder
begin

definition less_eq_collection_date :: "collection_date \<Rightarrow> collection_date \<Rightarrow> bool" where
  "a \<le> b \<longleftrightarrow> day a \<le> day b"

definition less_collection_date :: "collection_date \<Rightarrow> collection_date \<Rightarrow> bool" where
  "a < b \<longleftrightarrow> day a < day b"

instance
  by intro_classes (auto simp: less_eq_collection_date_def less_collection_date_def collection_date.expand)

end

lemma CDate_less [simp]: "CDate a < CDate b \<longleftrightarrow> a < b"
  by (simp add: less_collection_date_def)

lemma CDate_le [simp]: "CDate a \<le> CDate b \<longleftrightarrow> a \<le> b"
  by (simp add: less_eq_collection_date_def)

definition civil_date :: "collection_date \<Rightarrow> civil" where
  "civil_date d = civil_of_day (day d)"

text \<open>An instant is read in a zone with the given offset from UTC.\<close>

definition new_collection_date :: "int \<Rightarrow> time \<Rightarrow> collection_date" where
  "new_collection_date offset t =
     (let (y, m, d) = civil_of_day ((t + offset) div day_nanos) in CDate (day_of_civil (y, m, d)))"

definition zero_date :: collection_date where
  "zero_date = CDate 0"

definition is_zero_date :: "collection_date \<Rightarrow> bool" where
  "is_zero_date d \<longleftrightarrow> day d = 0"

definition date_time :: "collection_date \<Rightarrow> time" where
  "date_time d = day d * day_nanos"

definition compare_date :: "civil \<Rightarrow> civil \<Rightarrow> int" where
  "compare_date = (\<lambda>(ay, am, ad) (by', bm, bd).
     if ay \<noteq> by' then (if ay < by' then - 1 else 1)
     else if am \<noteq> bm then (if am < bm then - 1 else 1)
     else if ad \<noteq> bd then (if ad < bd then - 1 else 1)
     else 0)"

definition date_before :: "collection_date \<Rightarrow> collection_date \<Rightarrow> bool" where
  "date_before d e \<longleftrightarrow> compare_date (civil_date d) (civil_date e) < 0"

definition date_after :: "collection_date \<Rightarrow> collection_date \<Rightarrow> bool" where
  "date_after d e \<longleftrightarrow> compare_date (civil_date d) (civil_date e) > 0"

definition date_equal :: "collection_date \<Rightarrow> collection_date \<Rightarrow> bool" where
  "date_equal d e \<longleftrightarrow> compare_date (civil_date d) (civil_date e) = 0"

text \<open>
  \<open>AddDate(years, months, days)\<close>: \<open>time.Date\<close> of the shifted fields, which carries months over
  into years and counts the day of the month on from the first of the month.
\<close>

definition add_date :: "collection_date \<Rightarrow> int \<Rightarrow> int \<Rightarrow> int \<Rightarrow> collection_date" where
  "add_date dt years months days =
     (let (y, m, d) = civil_date dt; m0 = m + months - 1
      in CDate (day_of_civil (y + years + m0 div 12, m0 mod 12 + 1, 1) + (d + days - 1)))"

lemma compare_date_days:
  "compare_date (civil_of_day a) (civil_of_day b) = sgn (a - b)"
proof -
  obtain y m d where a: "civil_of_day a = (y, m, d)" by (metis prod_cases3)
  obtain y' m' d' where b: "civil_of_day b = (y', m', d')" by (metis prod_cases3)
  have va: "valid_civil (y, m, d)" and da: "day_of_civil (y, m, d) = a"
    using civil_of_day_spec [of a] by (auto simp: a)
  have vb: "valid_civil (y', m', d')" and db: "day_of_civil (y', m', d') = b"
    using civil_of_day_spec [of b] by (auto simp: b)
  have "y < y' \<or> y = y' \<and> (m < m' \<or> m = m' \<and> d < d') \<Longrightarrow> a < b"
    using day_of_civil_less [OF va vb] by (simp add: da db)
  moreover have "y' < y \<or> y' = y \<and> (m' < m \<or> m' = m \<and> d' < d) \<Longrightarrow> b < a"
    using day_of_civil_less [OF vb va] by (simp add: da db)
  moreover have "y = y' \<and> m = m' \<and> d = d' \<Longrightarrow> a = b" using da db by simp
  ultimately show ?thesis
    unfolding a b compare_date_def by (auto simp: sgn_if)
qed

lemma date_before_iff [simp]: "date_before d e \<longleftrightarrow> d < e"
  by (simp add: date_before_def civil_date_def compare_date_days less_collection_date_def sgn_if)

lemma date_after_iff [simp]: "date_after d e \<longleftrightarrow> e < d"
  by (simp add: date_after_def civil_date_def compare_date_days less_collection_date_def sgn_if)

lemma date_equal_iff [simp]: "date_equal d e \<longleftrightarrow> d = e"
  by (auto simp: date_equal_def civil_date_def compare_date_days sgn_if collection_date.expand)

lemma new_collection_date_day: "new_collection_date offset t = CDate ((t + offset) div day_nanos)"
  using civil_of_day_spec [of "(t + offset) div day_nanos"]
  by (auto simp: new_collection_date_def split: prod.splits)

lemma add_days: "add_date dt 0 0 n = CDate (day dt + n)"
proof -
  obtain y m d where c: "civil_of_day (day dt) = (y, m, d)" by (metis prod_cases3)
  have v: "valid_civil (y, m, d)" "day_of_civil (y, m, d) = day dt"
    using civil_of_day_spec [of "day dt"] by (auto simp: c)
  then have "(m - 1) div 12 = 0" "(m - 1) mod 12 = m - 1" by (auto simp: valid_civil_def)
  with v(2) show ?thesis by (simp add: add_date_def civil_date_def c day_of_civil_def)
qed

subsection \<open>The text of a date\<close>

text \<open>\<open>Format\<close> pads the year to four digits, the month and the day to two.\<close>

definition pad :: "nat \<Rightarrow> string \<Rightarrow> string" where
  "pad w s = replicate (w - length s) CHR ''0'' @ s"

definition format_civil :: "civil \<Rightarrow> string" where
  "format_civil = (\<lambda>(y, m, d).
     (if y < 0 then CHR ''-'' # pad 4 (nat_dec (nat (- y))) else pad 4 (nat_dec (nat y))) @
     ''-'' @ pad 2 (nat_dec (nat m)) @ ''-'' @ pad 2 (nat_dec (nat d)))"

definition date_string :: "collection_date \<Rightarrow> string" where
  "date_string d = (if is_zero_date d then '''' else format_civil (civil_date d))"

text \<open>
  \<open>time.Parse\<close> with this layout: four digits, a dash, two digits, a dash, two digits and
  nothing else; the month and the day of the month are in range.
\<close>

definition char_digit :: "char \<Rightarrow> nat option" where
  "char_digit c = (let n = of_char c :: nat in if 48 \<le> n \<and> n \<le> 57 then Some (n - 48) else None)"

definition read_digits :: "string \<Rightarrow> nat option" where
  "read_digits s = (let ds = map char_digit s in
     if None \<in> set ds then None else Some (from_digits (map the ds)))"

definition parse_date :: "string \<Rightarrow> civil option" where
  "parse_date s =
     (if length s = 10 \<and> s ! 4 = CHR ''-'' \<and> s ! 7 = CHR ''-'' then
        (case (read_digits (take 4 s), read_digits (take 2 (drop 5 s)), read_digits (drop 8 s)) of
           (Some y, Some m, Some d) \<Rightarrow>
             if valid_civil (int y, int m, int d) then Some (int y, int m, int d) else None
         | _ \<Rightarrow> None)
      else None)"

definition unmarshal_date :: "string \<Rightarrow> collection_date option" where
  "unmarshal_date s = map_option (\<lambda>c. new_collection_date 0 (day_of_civil c * day_nanos)) (parse_date s)"

subsection \<open>Reading back\<close>

lemma char_digit_digit_char [simp]: "d < 10 \<Longrightarrow> char_digit (digit_char d) = Some d"
  by (simp add: char_digit_def digit_char_def Let_def take_bit_eq_mod)

lemma from_digits_zeros: "from_digits (replicate k 0 @ ds) = from_digits ds"
  by (induction k) (auto simp: replicate_append_same)

lemma zero_digit: "CHR ''0'' = digit_char 0"
  by (simp add: digit_char_def char_of_def bit_simps)

lemma pad_digits: "pad w (nat_dec n) = map digit_char (replicate (w - length (digits n)) 0 @ digits n)"
  by (simp add: pad_def nat_dec_def zero_digit)

lemma read_digits_map:
  assumes "list_all (\<lambda>d. d < 10) ds"
  shows "read_digits (map digit_char ds) = Some (from_digits ds)"
proof -
  have a: "map char_digit (map digit_char ds) = map Some ds"
    using assms by (induction ds) auto
  have "map the (map char_digit (map digit_char ds)) = ds"
    unfolding a by (simp add: comp_def)
  with a show ?thesis by (auto simp: read_digits_def Let_def simp del: from_digits.simps)
qed

lemma read_pad [simp]: "read_digits (pad w (nat_dec n)) = Some n"
proof -
  have "list_all (\<lambda>d. d < 10) (replicate (w - length (digits n)) 0 @ digits n)"
    by (auto simp: list_all_iff dest: digits_lt10)
  then show ?thesis
    unfolding pad_digits by (simp add: read_digits_map from_digits_zeros del: from_digits.simps map_append)
qed

lemma length_digits: "k > 0 \<Longrightarrow> length (digits n) \<le> k \<longleftrightarrow> n < 10 ^ k"
proof (induction k arbitrary: n)
  case (Suc k)
  show ?case
  proof (cases "n < 10")
    case True
    then have "n < 10 * 10 ^ k" using one_le_power [of "10::nat" k] by linarith
    with True show ?thesis by (simp add: digits.simps [of n])
  next
    case False
    then have "length (digits n) = Suc (length (digits (n div 10)))" by (simp add: digits.simps [of n])
    with False Suc.IH [of "n div 10"] show ?thesis
      by (cases "k = 0") (auto simp: less_mult_imp_div_less div_less_iff_less_mult mult.commute)
  qed
qed simp

lemma length_pad: "0 < w \<Longrightarrow> n < 10 ^ w \<Longrightarrow> length (pad w (nat_dec n)) = w"
  using length_digits [of w n] by (simp add: pad_def nat_dec_def)

lemma days_in_month_le: "1 \<le> m \<Longrightarrow> m \<le> 12 \<Longrightarrow> days_in_month y m \<le> 31"
  using month_cases [of m] by (cases "leap y") (auto simp: days_in_month_def month_starts_def month_end_def)

lemma parse_format:
  assumes "valid_civil (y, m, d)" "0 \<le> y" "y \<le> 9999"
  shows "parse_date (format_civil (y, m, d)) = Some (y, m, d)"
proof -
  have b: "1 \<le> m" "m \<le> 12" "1 \<le> d" "d \<le> 31"
    using assms(1) days_in_month_le [of m y] by (auto simp: valid_civil_def)
  have l: "length (pad 4 (nat_dec (nat y))) = 4" "length (pad 2 (nat_dec (nat m))) = 2"
    "length (pad 2 (nat_dec (nat d))) = 2"
    using assms b by (auto intro!: length_pad)
  show ?thesis
    using assms b by (simp add: parse_date_def format_civil_def l nth_append)
qed

lemma unmarshal_date_string:
  assumes "\<not> is_zero_date d" "civil_date d = (y, m, n)" "0 \<le> y" "y \<le> 9999"
  shows "unmarshal_date (date_string d) = Some d"
proof -
  have v: "valid_civil (y, m, n)" "day_of_civil (y, m, n) = day d"
    using civil_of_day_spec [of "day d"] assms(2) by (auto simp: civil_date_def)
  have "day_nanos \<noteq> 0" by (simp add: day_nanos_def)
  with v show ?thesis
    using assms by (simp add: unmarshal_date_def date_string_def parse_format new_collection_date_day)
qed

lemma unmarshal_zero_date: "unmarshal_date (date_string zero_date) = None"
  by (simp add: date_string_def zero_date_def is_zero_date_def unmarshal_date_def parse_date_def)

subsection \<open>Distinct dates have distinct texts\<close>

lemma pad_inject: "pad w (nat_dec a) = pad w (nat_dec b) \<Longrightarrow> a = b"
  by (metis option.inject read_pad)

lemma pad_chars:
  "c \<in> set (pad w (nat_dec n)) \<Longrightarrow> c \<in> digit_char ` {0..<10}"
  by (auto simp: pad_digits dest: digits_lt10)

lemma digit_chars_plain: "c \<in> digit_char ` {0..<10} \<Longrightarrow> c \<noteq> CHR ''-'' \<and> c \<noteq> CHR ''|''"
proof -
  assume "c \<in> digit_char ` {0..<10}"
  then obtain n where "c = digit_char n" "n < 10" by auto
  then show ?thesis by (auto simp: digit_char_def char_of_eq_iff take_bit_eq_mod)
qed

lemma pad_no_dash: "pad w (nat_dec a) \<noteq> CHR ''-'' # s"
  using pad_chars [of "CHR ''-''" w a] digit_chars_plain by (metis list.set_intros(1))

lemma valid_month_day_pads:
  assumes "valid_civil (y, m, d)"
  shows "length (pad 2 (nat_dec (nat m))) = 2" "length (pad 2 (nat_dec (nat d))) = 2"
  using assms days_in_month_le [of m y] by (auto simp: valid_civil_def intro!: length_pad)

lemma format_civil_inject:
  assumes v: "valid_civil (y, m, d)" "valid_civil (y', m', d')"
    and eq: "format_civil (y, m, d) = format_civil (y', m', d')"
  shows "(y, m, d) = (y', m', d')"
proof -
  define ys where "ys z = (if z < 0 then CHR ''-'' # pad 4 (nat_dec (nat (- z))) else pad 4 (nat_dec (nat z)))" for z
  note l = valid_month_day_pads [OF v(1)] valid_month_day_pads [OF v(2)]
  have "ys y @ (''-'' @ pad 2 (nat_dec (nat m)) @ ''-'' @ pad 2 (nat_dec (nat d))) =
    ys y' @ (''-'' @ pad 2 (nat_dec (nat m')) @ ''-'' @ pad 2 (nat_dec (nat d')))"
    using eq by (simp add: format_civil_def ys_def)
  moreover from l have "length (''-'' @ pad 2 (nat_dec (nat m)) @ ''-'' @ pad 2 (nat_dec (nat d))) =
    length (''-'' @ pad 2 (nat_dec (nat m')) @ ''-'' @ pad 2 (nat_dec (nat d')))" by simp
  ultimately have e: "ys y = ys y'"
    "pad 2 (nat_dec (nat m)) @ ''-'' @ pad 2 (nat_dec (nat d)) =
     pad 2 (nat_dec (nat m')) @ ''-'' @ pad 2 (nat_dec (nat d'))"
    using append_eq_append_conv by auto
  then have "pad 2 (nat_dec (nat m)) = pad 2 (nat_dec (nat m'))" "pad 2 (nat_dec (nat d)) = pad 2 (nat_dec (nat d'))"
    using l by auto
  then have "nat m = nat m'" "nat d = nat d'" by (auto dest: pad_inject)
  moreover have "y = y'"
    using e(1) pad_no_dash pad_no_dash [symmetric]
    by (auto simp: ys_def split: if_splits dest!: pad_inject)
  ultimately show ?thesis using v by (auto simp: valid_civil_def)
qed

lemma format_civil_nonempty: "format_civil c \<noteq> []"
  by (auto simp: format_civil_def split: prod.splits)

lemma date_string_inject [simp]: "date_string a = date_string b \<longleftrightarrow> a = b"
proof
  assume eq: "date_string a = date_string b"
  show "a = b"
  proof (cases "is_zero_date a \<or> is_zero_date b")
    case True
    with eq format_civil_nonempty [of "civil_date a"] format_civil_nonempty [of "civil_date b"]
    have "is_zero_date a" "is_zero_date b" by (auto simp: date_string_def split: if_splits)
    then show ?thesis by (simp add: is_zero_date_def collection_date.expand)
  next
    case False
    with eq have "format_civil (civil_date a) = format_civil (civil_date b)" by (simp add: date_string_def)
    then have "civil_of_day (day a) = civil_of_day (day b)"
      using format_civil_inject civil_of_day_spec by (metis civil_date_def prod_cases3)
    then show ?thesis by (simp add: collection_date.expand)
  qed
qed simp

lemma date_string_no_bar: "CHR ''|'' \<notin> set (date_string d)"
  by (auto simp: date_string_def format_civil_def split: prod.splits if_splits
      dest!: pad_chars digit_chars_plain)

text \<open>C18. Collection dates: dates order as their days (Before, After and Equal compare the calendar
fields), adding days moves the day number, distinct dates have distinct texts, and a date of the
years 0 to 9999 other than the zero value is read back from its text.\<close>

theorem dates_order_and_print:
  "(date_before d e \<longleftrightarrow> day d < day e) \<and> (date_after d e \<longleftrightarrow> day e < day d) \<and> (date_equal d e \<longleftrightarrow> d = e) \<and>
   (date_string d = date_string e \<longleftrightarrow> d = e) \<and> add_date d 0 0 n = CDate (day d + n) \<and>
   (\<not> is_zero_date d \<longrightarrow> fst (civil_date d) \<in> {0..9999} \<longrightarrow> unmarshal_date (date_string d) = Some d)"
proof -
  obtain y m k where "civil_date d = (y, m, k)" by (metis prod_cases3)
  then show ?thesis
    using unmarshal_date_string [of d y m k] by (auto simp: add_days less_collection_date_def)
qed

lemma civil_2021: "civil_of_day 738000 = (2021, 7, 30)"
  by code_simp

theorem dates_order_and_print_witness:
  "unmarshal_date (date_string (CDate 738000)) = Some (CDate 738000)"
  using dates_order_and_print [of "CDate 738000" "CDate 738000" 0]
  by (simp add: is_zero_date_def civil_date_def civil_2021)

end
