(* ===== verification/GoModel.thy ===== *)
theory GoModel
  imports GoErrors Dates "HOL-Library.Word"
begin

text \<open>
  The data of app/model: keys, file identities, metadata, records, batches, results and the
  ledger's records. Strings are byte strings, an int64 is a 64-bit word, a Go map is an
  association list with distinct keys whose order is the order of one iteration.
\<close>

type_synonym source_id = string

text \<open>A context is what \<open>ctx.Err()\<close> answers.\<close>

type_synonym ctx = "err option"

record collection_key =
  k_source :: source_id
  k_date :: collection_date

definition mk_key :: "source_id \<Rightarrow> collection_date \<Rightarrow> collection_key" where
  "mk_key s d = \<lparr>k_source = s, k_date = d\<rparr>"

definition key_string :: "collection_key \<Rightarrow> string" where
  "key_string k = k_source k @ ''/'' @ date_string (k_date k)"

record file_identity =
  f_source :: source_id
  f_path :: string
  f_name :: string
  f_size :: "64 word"
  f_mtime :: time
  f_hash :: string

definition unix_epoch :: time where
  "unix_epoch = 719162 * day_nanos"

definition unix_nano :: "time \<Rightarrow> 64 word" where
  "unix_nano t = word_of_int (t - unix_epoch)"

definition identity :: "file_identity \<Rightarrow> string" where
  "identity f =
     (if f_hash f \<noteq> '''' then f_source f @ ''|'' @ f_path f @ ''|'' @ f_hash f
      else f_source f @ ''|'' @ f_path f @ ''|'' @ int_dec (sint (f_size f)) @ ''|'' @
        int_dec (sint (unix_nano (f_mtime f))))"

record row =
  row_number :: nat
  row_fields :: "string list"

subsection \<open>Metadata\<close>

type_synonym metadata = "(string \<times> string) list"

definition new_metadata :: metadata where
  "new_metadata = []"

definition md_get :: "metadata \<Rightarrow> string \<Rightarrow> string \<times> bool" where
  "md_get m k = (case map_of m k of Some v \<Rightarrow> (v, True) | None \<Rightarrow> ('''', False))"

definition md_has :: "metadata \<Rightarrow> string \<Rightarrow> bool" where
  "md_has m k = snd (md_get m k)"

definition md_len :: "metadata \<Rightarrow> nat" where
  "md_len m = length m"

definition put_all :: "(string \<Rightarrow> string) \<Rightarrow> metadata \<Rightarrow> metadata \<Rightarrow> metadata" where
  "put_all f src out = fold (\<lambda>(k, v). AList.update (f k) v) src out"

definition md_clone :: "metadata \<Rightarrow> metadata" where
  "md_clone m = put_all (\<lambda>k. k) m new_metadata"

definition md_equal :: "metadata \<Rightarrow> metadata \<Rightarrow> bool" where
  "md_equal m e \<longleftrightarrow>
     (if length m \<noteq> length e then False
      else list_all (\<lambda>(k, v). case map_of e k of None \<Rightarrow> False | Some ov \<Rightarrow> ov = v) m)"

record csv_head =
  doc_metadata :: metadata
  structured :: bool

text \<open>\<open>MergeDocument\<close> (app/metadata/document.go) and \<open>overlayMetadata\<close> (executor.go).\<close>

definition merge_document :: "metadata \<Rightarrow> csv_head \<Rightarrow> metadata" where
  "merge_document path doc =
     (if \<not> structured doc then md_clone path
      else put_all (\<lambda>k. ''csv.'' @ k) (doc_metadata doc) (put_all (\<lambda>k. ''path.'' @ k) path new_metadata))"

definition overlay_metadata :: "metadata \<Rightarrow> metadata \<Rightarrow> metadata" where
  "overlay_metadata base source =
     (if md_len source = 0 then base else put_all (\<lambda>k. k) source (md_clone base))"

subsection \<open>Statuses, batches and results\<close>

datatype status =
    StatusPending | StatusRunning | StatusSucceeded | StatusFailed | StatusSkipped
  | StatusOther string

record batch =
  b_key :: collection_key
  b_file :: file_identity
  b_metadata :: metadata
  b_records :: "row list"
  b_sequence :: nat
  b_header :: "string list"
  b_created :: time

record file_result =
  fr_file :: file_identity
  fr_metadata :: metadata
  fr_status :: status
  fr_records :: nat
  fr_error :: string

record collection_result =
  cr_key :: collection_key
  cr_started :: time
  cr_ended :: time
  cr_duration :: duration
  cr_status :: status
  cr_error :: string
  cr_files :: "file_result list"
  cr_records :: nat

record collection_requested =
  req_reason :: string
  req_date :: "collection_date option"
  req_source :: source_id
  req_group :: string

record collection_record =
  rec_key :: collection_key
  rec_status :: status
  rec_started :: time
  rec_ended :: time
  rec_note :: string

record file_record =
  done_key :: collection_key
  done_file :: file_identity
  done_records :: nat
  done_at :: time

record file_failure =
  fail_key :: collection_key
  fail_file :: file_identity
  fail_error :: string
  fail_at :: time
  fail_attempts :: nat

subsection \<open>Facts\<close>

lemma mk_key_eta [simp]: "mk_key (k_source k) (k_date k) = k"
  by (simp add: mk_key_def)

lemma mk_key_sel [simp]: "k_source (mk_key s d) = s" "k_date (mk_key s d) = d"
  by (simp_all add: mk_key_def)

lemma put_all_Nil [simp]: "put_all f [] out = out"
  by (simp add: put_all_def)

lemma put_all_Cons [simp]: "put_all f ((k, v) # src) out = put_all f src (AList.update (f k) v out)"
  by (simp add: put_all_def)

lemma put_all_wf [intro]: "wf_map out \<Longrightarrow> wf_map (put_all f src out)"
  by (induction src arbitrary: out) (auto simp: put_all_def)

lemma update_keys_set [simp]: "set (keys_of (AList.update k v m)) = insert k (set (keys_of m))"
  by (induction m) auto

lemma put_all_keys:
  "set (keys_of (put_all f src out)) = f ` set (keys_of src) \<union> set (keys_of out)"
  by (induction src arbitrary: out) (auto simp del: set_map)

lemma map_of_put_all:
  assumes "inj f" "wf_map src"
  shows "map_of (put_all f src out) (f k) = (case map_of src k of Some v \<Rightarrow> Some v | None \<Rightarrow> map_of out (f k))"
  using assms(2)
proof (induction src arbitrary: out)
  case (Cons p src)
  obtain a v where p: "p = (a, v)" by (cases p)
  have src: "wf_map src" "map_of src a = None" using Cons.prems by (auto simp: p map_of_eq_None_iff)
  note IH = Cons.IH [OF src(1), of "AList.update (f a) v out"]
  show ?case
  proof (cases "k = a")
    case True
    with IH src(2) show ?thesis by (simp add: p update_conv')
  next
    case False
    then have "f k \<noteq> f a" using assms(1) by (auto dest: injD)
    with IH False show ?thesis by (simp add: p update_conv' split: option.splits)
  qed
qed simp

lemma map_of_put_all_other:
  "\<forall>a. k \<noteq> f a \<Longrightarrow> map_of (put_all f src out) k = map_of out k"
  by (induction src arbitrary: out) (auto simp: update_conv')

lemma md_clone_wf [simp]: "wf_map (md_clone m)"
  by (auto simp: md_clone_def new_metadata_def intro: put_all_wf)

lemma map_of_md_clone: "wf_map m \<Longrightarrow> map_of (md_clone m) = map_of m"
  using map_of_put_all [of "\<lambda>k. k" m new_metadata]
  by (intro ext) (simp add: md_clone_def new_metadata_def split: option.splits)

subsection \<open>Layers of metadata\<close>

lemma inj_prefix: "inj (\<lambda>k. p @ k)"
  by (simp add: inj_def)

lemma map_of_overlay:
  assumes "wf_map base" "wf_map source"
  shows "map_of (overlay_metadata base source) k =
    (case map_of source k of Some v \<Rightarrow> Some v | None \<Rightarrow> map_of base k)"
  using assms map_of_put_all [of "\<lambda>k. k" source "md_clone base" k]
  by (auto simp: overlay_metadata_def md_len_def map_of_md_clone split: option.split)

lemma map_of_merge_plain: "wf_map path \<Longrightarrow> \<not> structured doc \<Longrightarrow> map_of (merge_document path doc) = map_of path"
  by (simp add: merge_document_def map_of_md_clone)

lemma map_of_two_layers:
  assumes "inj f" "inj g" "\<And>a b. f a \<noteq> g b" "wf_map p" "wf_map d"
  shows "map_of (put_all g d (put_all f p new_metadata)) (f k) = map_of p k"
    "map_of (put_all g d (put_all f p new_metadata)) (g k) = map_of d k"
proof -
  have "\<forall>a. f k \<noteq> g a" "\<forall>a. g k \<noteq> f a" using assms(3) by metis+
  then show "map_of (put_all g d (put_all f p new_metadata)) (f k) = map_of p k"
    "map_of (put_all g d (put_all f p new_metadata)) (g k) = map_of d k"
    using map_of_put_all [OF assms(1,4), of new_metadata k]
      map_of_put_all [OF assms(2,5), of "put_all f p new_metadata" k]
    by (auto simp: map_of_put_all_other new_metadata_def split: option.splits)
qed

lemma map_of_merge_structured:
  assumes "wf_map path" "wf_map (doc_metadata doc)" "structured doc"
  shows "map_of (merge_document path doc) (''path.'' @ k) = map_of path k"
    "map_of (merge_document path doc) (''csv.'' @ k) = map_of (doc_metadata doc) k"
proof -
  have ne: "''path.'' @ a \<noteq> ''csv.'' @ b" for a b :: string by simp
  note two = map_of_two_layers [OF inj_prefix inj_prefix ne assms(1,2), of k]
  have m: "merge_document path doc =
    put_all (\<lambda>k. ''csv.'' @ k) (doc_metadata doc) (put_all (\<lambda>k. ''path.'' @ k) path new_metadata)"
    unfolding merge_document_def by (simp only: assms(3) simp_thms if_False)
  show "map_of (merge_document path doc) (''path.'' @ k) = map_of path k"
    "map_of (merge_document path doc) (''csv.'' @ k) = map_of (doc_metadata doc) k"
    unfolding m by (rule two)+
qed

text \<open>C20. The layers of a file's metadata: a value of the configured source always wins over one
derived from the file, a plain document leaves the path's keys as they are, and a structured
document puts path and document values under separate prefixes so that neither hides the other.\<close>

theorem metadata_layers:
  assumes "wf_map path" "wf_map (doc_metadata doc)" "wf_map source" "wf_map base"
  shows "map_of (overlay_metadata base source) k =
      (case map_of source k of Some v \<Rightarrow> Some v | None \<Rightarrow> map_of base k) \<and>
    (structured doc \<longrightarrow> map_of (merge_document path doc) (''path.'' @ k) = map_of path k \<and>
       map_of (merge_document path doc) (''csv.'' @ k) = map_of (doc_metadata doc) k) \<and>
    (\<not> structured doc \<longrightarrow> map_of (merge_document path doc) k = map_of path k)"
proof (intro conjI impI)
  show "map_of (merge_document path doc) k = map_of path k" if "\<not> structured doc"
    using map_of_merge_plain [OF assms(1) that] by simp
qed (simp_all only: map_of_overlay [OF assms(4,3)] map_of_merge_structured [OF assms(1,2)])

theorem metadata_layers_witness:
  "map_of (overlay_metadata [(''machine'', ''M1''), (''lot'', ''7'')] [(''machine'', ''M2'')]) ''machine'' = Some ''M2'' \<and>
   map_of (merge_document [(''machine'', ''M1'')] \<lparr>doc_metadata = [(''machine'', ''M9'')], structured = True\<rparr>)
     (''path.'' @ ''machine'') = Some ''M1''"
  using metadata_layers [of "[(''machine'', ''M1'')]" "\<lparr>doc_metadata = [(''machine'', ''M9'')], structured = True\<rparr>"
      "[(''machine'', ''M2'')]" "[(''machine'', ''M1''), (''lot'', ''7'')]" "''machine''"]
  by simp

end
