(* ===== verification/GoText.thy ===== *)
theory GoText
  imports GoErrors
begin

text \<open>
  The parts of Go's strings and unicode/utf8 packages the program uses, on byte strings:
  decoding the first rune, validity, white space, prefixes, splitting and cutting.
\<close>

section \<open>UTF-8\<close>

abbreviation byte :: "char \<Rightarrow> nat" where
  "byte c \<equiv> of_char c"

definition cont :: "char \<Rightarrow> bool" where
  "cont c \<longleftrightarrow> 0x80 \<le> byte c \<and> byte c \<le> 0xBF"

text \<open>The second byte of a rune of three or four bytes, by its first byte.\<close>

definition second_ok :: "char \<Rightarrow> char \<Rightarrow> bool" where
  "second_ok a b \<longleftrightarrow>
     (if byte a = 0xE0 then 0xA0 else if byte a = 0xF0 then 0x90 else 0x80) \<le> byte b \<and>
     byte b \<le> (if byte a = 0xED then 0x9F else if byte a = 0xF4 then 0x8F else 0xBF)"

text \<open>The number of bytes a first byte announces, 0 when no rune starts with it.\<close>

definition lead_len :: "char \<Rightarrow> nat" where
  "lead_len a =
     (if byte a < 0x80 then 1 else if 0xC2 \<le> byte a \<and> byte a \<le> 0xDF then 2
      else if 0xE0 \<le> byte a \<and> byte a \<le> 0xEF then 3
      else if 0xF0 \<le> byte a \<and> byte a \<le> 0xF4 then 4 else 0)"

text \<open>The number of bytes of a valid rune at the front, 0 when there is none.\<close>

fun rune_len :: "string \<Rightarrow> nat" where
  "rune_len [] = 0"
| "rune_len (a # s) =
     (let n = lead_len a in
      if n \<le> length s + 1 \<and> list_all cont (take (n - 1) s) \<and> (3 \<le> n \<longrightarrow> second_ok a (hd s)) then n else 0)"

definition rune_error :: nat where
  "rune_error = 0xFFFD"

text \<open>\<open>utf8.DecodeRune\<close>: the rune and its size.\<close>

definition decode_rune :: "string \<Rightarrow> nat \<times> nat" where
  "decode_rune s =
     (if s = [] then (rune_error, 0)
      else (case rune_len s of
              0 \<Rightarrow> (rune_error, 1)
            | n \<Rightarrow> (foldl (\<lambda>r c. r * 64 + byte c mod 64)
                     (byte (hd s) mod (if n = 1 then 128 else if n = 2 then 32 else if n = 3 then 16 else 8))
                     (take (n - 1) (tl s)), n)))"

lemma rune_len_le: "rune_len s \<le> length s"
  by (cases s) (simp_all add: Let_def)

lemma lead_len_le: "lead_len a \<le> 4"
  by (simp add: lead_len_def)

lemma rune_len_append: "rune_len s \<noteq> 0 \<Longrightarrow> rune_len (s @ t) = rune_len s"
  by (cases s) (auto simp: Let_def hd_append split: if_splits)

lemma rune_len_take: "rune_len s \<noteq> 0 \<Longrightarrow> rune_len (take (rune_len s) s) = rune_len s"
  by (cases s) (auto simp: Let_def take_Cons' hd_take min_def split: if_splits)

lemma rune_len_take4: "rune_len (take 4 s) = rune_len s"
proof (cases s)
  case (Cons a t)
  have t: "take 4 (a # t) = a # take 3 t" by simp
  have "lead_len a \<le> length (take 3 t) + 1 \<longleftrightarrow> lead_len a \<le> length t + 1"
    "take (lead_len a - 1) (take 3 t) = take (lead_len a - 1) t" "hd (take 3 t) = hd t"
    using lead_len_le [of a] by (auto simp: min_def hd_take)
  then show ?thesis unfolding Cons t rune_len.simps by simp
qed simp

lemma rune_len_ascii: "byte c < 0x80 \<Longrightarrow> rune_len (c # s) = 1"
  by (simp add: lead_len_def)

declare rune_len.simps [simp del]

lemma rune_len_Nil [simp]: "rune_len [] = 0"
  by (simp add: rune_len.simps)

text \<open>\<open>utf8.ValidString\<close>.\<close>

function valid_string :: "string \<Rightarrow> bool" where
  "valid_string s =
     (if s = [] then True else if rune_len s = 0 then False else valid_string (drop (rune_len s) s))"
  by pat_completeness auto
termination
  by (relation "measure length") auto

declare valid_string.simps [simp del]

lemma valid_string_Nil [simp]: "valid_string []"
  by (simp add: valid_string.simps)

lemma valid_string_cons: "rune_len s \<noteq> 0 \<Longrightarrow> valid_string (take (rune_len s) s @ t) \<longleftrightarrow> valid_string t"
proof -
  assume n: "rune_len s \<noteq> 0"
  then have l: "rune_len (take (rune_len s) s @ t) = rune_len s"
    using rune_len_take [OF n] rune_len_append [of "take (rune_len s) s" t] by simp
  moreover have "length (take (rune_len s) s) = rune_len s" using rune_len_le [of s] by simp
  ultimately show ?thesis using n by (subst valid_string.simps) auto
qed

text \<open>
  The bytes of the replacement character for every byte that starts no rune, as encoding/json
  writes a string.
\<close>

function valid_text :: "string \<Rightarrow> string" where
  "valid_text s =
     (if s = [] then []
      else if rune_len s = 0 then [CHR 0xEF, CHR 0xBF, CHR 0xBD] @ valid_text (tl s)
      else take (rune_len s) s @ valid_text (drop (rune_len s) s))"
  by pat_completeness auto
termination
  by (relation "measure length") auto

declare valid_text.simps [simp del]

lemma valid_text_same: "valid_string s \<Longrightarrow> valid_text s = s"
proof (induction s rule: valid_string.induct)
  case (1 s)
  show ?case
  proof (cases "s = []")
    case False
    then have r: "rune_len s \<noteq> 0" "valid_string (drop (rune_len s) s)"
      using "1.prems" by (auto simp: valid_string.simps [of s] split: if_splits)
    from "1.IH" [OF False r] r(1) show ?thesis by (simp add: valid_text.simps [of s])
  qed (simp add: valid_text.simps)
qed

lemma valid_text_valid: "valid_string (valid_text s)"
proof (induction s rule: valid_text.induct)
  case (1 s)
  consider (nil) "s = []" | (bad) "s \<noteq> []" "rune_len s = 0" | (ok) "s \<noteq> []" "rune_len s \<noteq> 0" by blast
  then show ?case
  proof cases
    case bad
    have "rune_len [CHR 0xEF, CHR 0xBF, CHR 0xBD] = 3" by code_simp
    with valid_string_cons [of "[CHR 0xEF, CHR 0xBF, CHR 0xBD]" "valid_text (tl s)"] "1.IH"(1) [OF bad] bad
    show ?thesis by (simp add: valid_text.simps [of s])
  next
    case ok
    with valid_string_cons [OF ok(2)] "1.IH"(2) [OF ok] show ?thesis by (simp add: valid_text.simps [of s])
  qed (simp add: valid_text.simps)
qed

abbreviation slash :: char where
  "slash \<equiv> CHR ''/''"

abbreviation backslash :: char where
  "backslash \<equiv> CHR 0x5C"

abbreviation newline :: char where
  "newline \<equiv> CHR 0x0A"

abbreviation carriage :: char where
  "carriage \<equiv> CHR 0x0D"

abbreviation quote :: char where
  "quote \<equiv> CHR 0x22"

section \<open>White space, prefixes, cutting\<close>

definition is_prefix :: "string \<Rightarrow> string \<Rightarrow> bool" where
  "is_prefix p s \<longleftrightarrow> take (length p) s = p"

lemma is_prefix_iff: "is_prefix p s \<longleftrightarrow> s = p @ drop (length p) s"
  unfolding is_prefix_def by (metis append_eq_conv_conj append_take_drop_id)

lemma is_prefix_append: "is_prefix p s \<longleftrightarrow> (\<exists>t. s = p @ t)"
  by (auto simp: is_prefix_def) (metis append_take_drop_id)

text \<open>\<open>strings.Split\<close> by one byte.\<close>

fun split_on :: "char \<Rightarrow> string \<Rightarrow> string list" where
  "split_on c [] = [[]]"
| "split_on c (x # s) =
     (if x = c then [] # split_on c s
      else (case split_on c s of [] \<Rightarrow> [[x]] | p # ps \<Rightarrow> (x # p) # ps))"

text \<open>The characters of \<open>unicode.IsSpace\<close>, encoded.\<close>

definition space_runes :: "string list" where
  "space_runes =
     map (\<lambda>n. [char_of n]) [9, 10, 11, 12, 13, 32 :: nat] @ map (map char_of)
       ([[0xC2, 0x85], [0xC2, 0xA0], [0xE1, 0x9A, 0x80], [0xE2, 0x80, 0xA8], [0xE2, 0x80, 0xA9], [0xE2, 0x80, 0xAF],
         [0xE2, 0x81, 0x9F], [0xE3, 0x80, 0x80]] @ map (\<lambda>n. [0xE2, 0x80, n]) [0x80..<0x8B :: nat])"

text \<open>
  Dropping such runes from the front; \<open>TrimSpace\<close> drops them from both ends. At the end of a
  string the runes are recognised by their last byte first.
\<close>

definition head_space :: "string list \<Rightarrow> string \<Rightarrow> nat" where
  "head_space rs s = (case filter (\<lambda>r. is_prefix r s) rs of [] \<Rightarrow> 0 | r # _ \<Rightarrow> length r)"

function trim_front :: "string list \<Rightarrow> string \<Rightarrow> string" where
  "trim_front rs s =
     (if head_space rs s = 0 \<or> s = [] then s else trim_front rs (drop (head_space rs s) s))"
  by pat_completeness auto
termination
  by (relation "measure (\<lambda>(rs, s). length s)") auto

declare trim_front.simps [simp del]

definition trim_space :: "string \<Rightarrow> string" where
  "trim_space s = rev (trim_front (map rev space_runes) (rev (trim_front space_runes s)))"

text \<open>\<open>strings.ToLower\<close> of ASCII letters; other bytes stay as they are.\<close>

definition to_lower :: "string \<Rightarrow> string" where
  "to_lower s = map lower_char s"

text \<open>\<open>strings.Cut\<close>: before and after the first occurrence.\<close>

fun cut_str :: "string \<Rightarrow> string \<Rightarrow> (string \<times> string) option" where
  "cut_str sep [] = (if sep = [] then Some ([], []) else None)"
| "cut_str sep (c # s) =
     (if is_prefix sep (c # s) then Some ([], drop (length sep) (c # s))
      else map_option (\<lambda>(a, b). (c # a, b)) (cut_str sep s))"

lemma cut_str_length: "cut_str sep s = Some (a, b) \<Longrightarrow> length b \<le> length s \<and> (sep \<noteq> [] \<longrightarrow> length b < length s)"
proof (induction s arbitrary: a b)
  case (Cons c s)
  show ?case
  proof (cases "is_prefix sep (c # s)")
    case True
    then show ?thesis using Cons.prems by (cases sep) auto
  next
    case False
    then obtain a1 where "cut_str sep s = Some (a1, b)" using Cons.prems by auto
    from Cons.IH [OF this] show ?thesis by auto
  qed
qed (auto split: if_splits)

text \<open>Cutting one byte off the end.\<close>

definition drop_last :: "char \<Rightarrow> string \<Rightarrow> string" where
  "drop_last c s = (if s \<noteq> '''' \<and> last s = c then butlast s else s)"

lemma drop_last_length: "length (drop_last c s) \<le> length s"
  by (simp add: drop_last_def)

end
