(* ===== verification/AutoColumns.thy ===== *)
theory AutoColumns
  imports GoModel GoText
begin

text \<open>
  Automatic columns of the relational sink (app/storage/table.go): the columns derived from a
  header, their merging into the columns already there, and the values of a row. The parsers of
  numbers, booleans and times of Go's library are an argument.
\<close>

section \<open>Deriving columns\<close>

datatype column_source = SourceCSV | SourceMetadata

record column_mapping =
  cm_from :: column_source
  cm_name :: string
  cm_column :: string
  cm_type :: string
  cm_required :: bool
  cm_occurrence :: nat

text \<open>\<open>strings.Map\<close> with the function that drops control characters; a byte that is part of no rune
comes out as the replacement character.\<close>

function drop_controls :: "string \<Rightarrow> string" where
  "drop_controls s =
     (if s = '''' then ''''
      else if rune_len s = 0 then [CHR 0xEF, CHR 0xBF, CHR 0xBD] @ drop_controls (tl s)
      else (if byte (hd s) < 0x20 \<or> byte (hd s) = 0x7F then '''' else take (rune_len s) s) @
        drop_controls (drop (rune_len s) s))"
  by pat_completeness auto
termination
  by (relation "measure length") auto

declare drop_controls.simps [simp del]

definition suffixed :: "string \<Rightarrow> nat \<Rightarrow> string" where
  "suffixed name n = name @ ''__'' @ nat_dec n"

lemma suffixed_inject: "suffixed name a = suffixed name b \<longleftrightarrow> a = b"
  by (simp add: suffixed_def nat_dec_inject)

lemma to_lower_suffixed: "to_lower (suffixed name n) = suffixed (to_lower name) n"
proof -
  have "list_all (\<lambda>d. lower_char (digit_char d) = digit_char d) [0..<10]" by code_simp
  then have "lower_char (digit_char d) = digit_char d" if "d < 10" for d
    using that by (simp add: list_all_iff)
  then have "map lower_char (nat_dec n) = nat_dec n"
    unfolding nat_dec_def using digits_lt10 by (auto simp: map_idI)
  then show ?thesis by (simp add: suffixed_def to_lower_def lower_char_def)
qed

text \<open>The suffixes in use become fewer.\<close>

definition suffixes_taken :: "(nat \<Rightarrow> string) \<Rightarrow> string list \<Rightarrow> nat \<Rightarrow> nat" where
  "suffixes_taken f used n = card {k. n \<le> k \<and> f k \<in> set used}"

lemma suffixes_fewer:
  assumes "inj f" "f n \<in> set used"
  shows "suffixes_taken f used (Suc n) < suffixes_taken f used n"
proof -
  have "finite (f -` set used)" using assms(1) by (intro finite_vimageI) simp_all
  then have "finite {k. n \<le> k \<and> f k \<in> set used}" by (rule finite_subset [rotated]) auto
  then show ?thesis unfolding suffixes_taken_def using assms(2)
    by (intro psubset_card_mono psubsetI) (auto simp: set_eq_iff intro!: exI [of _ n])
qed

text \<open>The first free suffix, and the first whose lower-case text is free.\<close>

function free_name :: "string list \<Rightarrow> string \<Rightarrow> nat \<Rightarrow> string" where
  "free_name used name n = (if suffixed name n \<in> set used then free_name used name (n + 1) else suffixed name n)"
  by pat_completeness auto
termination
  by (relation "measure (\<lambda>(used, name, n). suffixes_taken (suffixed name) used n)")
    (auto intro!: suffixes_fewer injI simp: suffixed_inject)

function free_lower :: "string list \<Rightarrow> string \<Rightarrow> nat \<Rightarrow> string" where
  "free_lower used name n =
     (if to_lower (suffixed name n) \<in> set used then free_lower used name (n + 1) else suffixed name n)"
  by pat_completeness auto
termination
  by (relation "measure (\<lambda>(used, name, n). suffixes_taken (\<lambda>k. to_lower (suffixed name k)) used n)")
    (auto intro!: suffixes_fewer injI simp: to_lower_suffixed suffixed_inject)

declare free_name.simps [simp del] free_lower.simps [simp del]

text \<open>The name of a header field, empty when it is skipped.\<close>

definition clean_name :: "string \<Rightarrow> string" where
  "clean_name raw =
     (let name = trim_space raw in if name = '''' then '''' else trim_space (drop_controls name))"

fun derive_loop :: "string list \<Rightarrow> string list \<Rightarrow> (string \<Rightarrow> nat) \<Rightarrow> column_mapping list" where
  "derive_loop [] used count = []"
| "derive_loop (raw # header) used count =
     (let name = clean_name raw in
      if name = '''' then derive_loop header used count
      else
       (let occ = count name; col = (if occ > 0 then free_name used name (occ + 1) else name)
        in \<lparr>cm_from = SourceCSV, cm_name = raw, cm_column = col, cm_type = ''text'', cm_required = False, cm_occurrence = occ\<rparr> #
           derive_loop header (col # used) (count(name := occ + 1))))"

definition derive_columns :: "string list \<Rightarrow> column_mapping list" where
  "derive_columns header = derive_loop header [] (\<lambda>_. 0)"

section \<open>Merging them\<close>

definition source_key :: "column_mapping \<Rightarrow> string" where
  "source_key c = cm_name c @ [CHR 0x00] @ nat_dec (cm_occurrence c)"

fun merge_loop :: "column_mapping list \<Rightarrow> string list \<Rightarrow> string list \<Rightarrow> column_mapping list" where
  "merge_loop [] have used = []"
| "merge_loop (d # derived) have used =
     (if source_key d \<in> set have then merge_loop derived have used
      else
       (let col = (if to_lower (cm_column d) \<in> set used then free_lower used (cm_name d) (cm_occurrence d + 2) else cm_column d)
        in d\<lparr>cm_column := col\<rparr> # merge_loop derived (source_key d # have) (to_lower col # used)))"

text \<open>The columns, none before the first header, and whether any were added.\<close>

definition merge_derived_cols :: "column_mapping list option \<Rightarrow> column_mapping list \<Rightarrow> column_mapping list \<times> bool" where
  "merge_derived_cols existing derived =
     (let out = (case existing of None \<Rightarrow> [] | Some cs \<Rightarrow> cs);
          new = merge_loop derived (map source_key out) (map (\<lambda>c. to_lower (cm_column c)) out)
      in (out @ new, new \<noteq> []))"

text \<open>\<open>evolveAutoColumns\<close>, with the answer of the database to the change of the table.\<close>

definition evolve_auto_columns :: "err option \<Rightarrow> column_mapping list option \<Rightarrow> string list \<Rightarrow> err option \<times> column_mapping list option" where
  "evolve_auto_columns ensured prev header =
     (let (merged, grew) = merge_derived_cols prev (derive_columns header) in
      if \<not> grew then (None, prev)
      else (case ensured of None \<Rightarrow> (None, Some merged) | Some e \<Rightarrow> (Some e, prev)))"

definition effective_columns :: "column_mapping list option \<Rightarrow> column_mapping list \<Rightarrow> column_mapping list" where
  "effective_columns auto_cols declared = (case auto_cols of Some cs \<Rightarrow> cs | None \<Rightarrow> declared)"


section \<open>The values of a row\<close>








section \<open>Names stay apart\<close>

lemma free_name_free: "free_name used name n \<notin> set used"
  by (induction used name n rule: free_name.induct) (subst free_name.simps, simp)

lemma free_lower_free: "to_lower (free_lower used name n) \<notin> set used"
  by (induction used name n rule: free_lower.induct) (subst free_lower.simps, simp)

lemma merge_loop_distinct:
  "distinct (map (\<lambda>c. to_lower (cm_column c)) (merge_loop derived have used)) \<and>
   set (map (\<lambda>c. to_lower (cm_column c)) (merge_loop derived have used)) \<inter> set used = {}"
proof (induction derived "have" used rule: merge_loop.induct)
  case (2 d derived "have" used)
  show ?case
  proof (cases "source_key d \<in> set have")
    case False
    define col where "col = (if to_lower (cm_column d) \<in> set used then free_lower used (cm_name d) (cm_occurrence d + 2) else cm_column d)"
    have "to_lower col \<notin> set used" using free_lower_free by (simp add: col_def)
    with "2.IH"(2) [OF False col_def] False show ?thesis by (auto simp: col_def [symmetric] Let_def)
  qed (use "2.IH"(1) in simp)
qed simp

lemma merge_loop_keys:
  "distinct (map source_key (merge_loop derived have used)) \<and>
   set (map source_key (merge_loop derived have used)) = set (map source_key derived) - set have"
proof (induction derived "have" used rule: merge_loop.induct)
  case (2 d derived "have" used)
  show ?case
  proof (cases "source_key d \<in> set have")
    case False
    define col where "col = (if to_lower (cm_column d) \<in> set used then free_lower used (cm_name d) (cm_occurrence d + 2) else cm_column d)"
    have "source_key (d\<lparr>cm_column := col\<rparr>) = source_key d" by (simp add: source_key_def)
    with "2.IH"(2) [OF False col_def] False show ?thesis by (auto simp: col_def [symmetric] Let_def)
  qed (use "2.IH"(1) in auto)
qed simp

definition columns_apart :: "column_mapping list \<Rightarrow> bool" where
  "columns_apart cs \<longleftrightarrow> distinct (map (\<lambda>c. to_lower (cm_column c)) cs) \<and> distinct (map source_key cs)"

lemma merge_apart:
  assumes "columns_apart (effective_columns prev [])"
  shows "columns_apart (fst (merge_derived_cols prev derived))"
  using assms
    merge_loop_distinct [of derived "map source_key (effective_columns prev [])" "map (\<lambda>c. to_lower (cm_column c)) (effective_columns prev [])"]
    merge_loop_keys [of derived "map source_key (effective_columns prev [])" "map (\<lambda>c. to_lower (cm_column c)) (effective_columns prev [])"]
  by (auto simp: columns_apart_def merge_derived_cols_def effective_columns_def Let_def)

lemma merge_extends: "\<exists>new. fst (merge_derived_cols prev derived) = effective_columns prev [] @ new"
  by (auto simp: merge_derived_cols_def effective_columns_def Let_def)

lemma merge_covers: "source_key ` set derived \<subseteq> source_key ` set (fst (merge_derived_cols prev derived))"
  using merge_loop_keys [of derived "map source_key (effective_columns prev [])" "map (\<lambda>c. to_lower (cm_column c)) (effective_columns prev [])"]
  by (auto simp: merge_derived_cols_def effective_columns_def Let_def)

text \<open>The columns after a sequence of headers, each with the database's answer.\<close>

definition evolved :: "column_mapping list option \<Rightarrow> (err option \<times> string list) list \<Rightarrow> column_mapping list option" where
  "evolved prev headers = foldl (\<lambda>cs (e, h). snd (evolve_auto_columns e cs h)) prev headers"

lemma evolve_step:
  assumes "columns_apart (effective_columns prev [])"
  shows "columns_apart (effective_columns (snd (evolve_auto_columns e prev header)) []) \<and>
    (\<exists>new. effective_columns (snd (evolve_auto_columns e prev header)) [] = effective_columns prev [] @ new)"
  using merge_apart [OF assms] merge_extends [of prev "derive_columns header"] assms
  by (auto simp: evolve_auto_columns_def effective_columns_def case_prod_beta split: option.split)

lemma evolved_apart:
  "columns_apart (effective_columns prev []) \<Longrightarrow> columns_apart (effective_columns (evolved prev headers) []) \<and>
     (\<exists>new. effective_columns (evolved prev headers) [] = effective_columns prev [] @ new)"
proof (induction headers arbitrary: prev)
  case (Cons eh headers)
  obtain e h where eh: "eh = (e, h)" by fastforce
  let ?next = "snd (evolve_auto_columns e prev h)"
  have step: "evolved prev (eh # headers) = evolved ?next headers" by (simp add: evolved_def eh)
  note s = evolve_step [OF Cons.prems, of e h]
  with Cons.IH [of ?next] show ?case unfolding step by fastforce
qed (simp add: evolved_def)


section \<open>Which value a column gets\<close>
























end
