(* ===== verification/Ledger.thy ===== *)
theory Ledger
  imports GoModel "HOL-Library.Product_Lexorder" "HOL-Library.Multiset"
begin

text \<open>
  The collection ledger of app/state/state.go: MemoryState, its migration and its snapshot. An
  operation takes what \<open>ctx.Err()\<close> answers and the readings of the clock it makes, and returns
  its result with the new ledger. Each method holds the mutex from start to end, so an
  execution is a sequence of these operations.
\<close>

section \<open>The ledger and its operations\<close>

record ledger =
  collections :: "(string \<times> collection_record) list"
  files :: "(string \<times> (string \<times> file_record) list) list"
  failed_files :: "(string \<times> (string \<times> file_failure) list) list"
  append_mode :: bool

definition state_key :: "collection_key \<Rightarrow> string" where
  "state_key k = k_source k @ ''|'' @ date_string (k_date k)"

definition new_memory :: ledger where
  "new_memory = \<lparr>collections = [], files = [], failed_files = [], append_mode = False\<rparr>"

definition set_append_mode :: "ledger \<Rightarrow> ledger" where
  "set_append_mode s = s\<lparr>append_mode := True\<rparr>"

text \<open>Reading a Go map of maps: an absent entry is the nil map.\<close>

definition inner :: "(string \<times> (string \<times> 'a) list) list \<Rightarrow> string \<Rightarrow> (string \<times> 'a) list" where
  "inner m ck = (case map_of m ck of None \<Rightarrow> [] | Some i \<Rightarrow> i)"

definition put_inner ::
  "string \<Rightarrow> string \<Rightarrow> 'a \<Rightarrow> (string \<times> (string \<times> 'a) list) list \<Rightarrow> (string \<times> (string \<times> 'a) list) list" where
  "put_inner ck i v m = AList.update ck (AList.update i v (inner m ck)) m"

definition not_begun :: "collection_key \<Rightarrow> err" where
  "not_begun key = Wrapped (''collection state '' @ go_quote (key_string key) @ '' has not begun'') []"

definition open_collection :: "time \<Rightarrow> collection_key \<Rightarrow> ledger \<Rightarrow> ledger" where
  "open_collection now key s =
     s\<lparr>collections := AList.update (state_key key)
        \<lparr>rec_key = key, rec_status = StatusRunning, rec_started = now, rec_ended = 0, rec_note = ''''\<rparr>
        (collections s)\<rparr>"

definition mem_begin :: "ctx \<Rightarrow> time \<Rightarrow> collection_key \<Rightarrow> duration \<Rightarrow> ledger \<Rightarrow> bool res \<times> ledger" where
  "mem_begin c now key lease s =
     (case c of Some e \<Rightarrow> (Inl e, s)
      | None \<Rightarrow>
        (case map_of (collections s) (state_key key) of
           None \<Rightarrow> (Inr True, open_collection now key s)
         | Some rc \<Rightarrow>
             if rec_status rc = StatusSucceeded \<and> \<not> append_mode s then (Inr False, s)
             else if rec_status rc = StatusRunning \<and> time_sub now (rec_started rc) < lease then (Inr False, s)
             else (Inr True, open_collection now key s)))"

definition mem_end ::
  "ctx \<Rightarrow> time \<Rightarrow> time \<Rightarrow> collection_key \<Rightarrow> status \<Rightarrow> string \<Rightarrow> ledger \<Rightarrow> unit res \<times> ledger" where
  "mem_end c now1 now2 key st note s =
     (case c of Some e \<Rightarrow> (Inl e, s)
      | None \<Rightarrow>
        (let ck = state_key key in
         case map_of (collections s) ck of
           None \<Rightarrow> (Inl (not_begun key), s)
         | Some rc \<Rightarrow>
             (let rc1 = (if rec_status rc = StatusRunning \<and> rec_started rc = 0
                         then rc\<lparr>rec_started := now1\<rparr> else rc);
                  rc2 = rc1\<lparr>rec_status := st, rec_note := note, rec_ended := now2\<rparr>;
                  s1 = s\<lparr>collections := AList.update ck rc2 (collections s)\<rparr>
              in (Inr (), if st = StatusSucceeded
                          then s1\<lparr>failed_files := AList.delete ck (failed_files s1)\<rparr> else s1))))"

definition mem_drop :: "ctx \<Rightarrow> collection_key \<Rightarrow> ledger \<Rightarrow> unit res \<times> ledger" where
  "mem_drop c key s =
     (case c of Some e \<Rightarrow> (Inl e, s)
      | None \<Rightarrow>
        (let ck = state_key key in
         (Inr (), s\<lparr>collections := AList.delete ck (collections s), files := AList.delete ck (files s),
                    failed_files := AList.delete ck (failed_files s)\<rparr>)))"

definition mem_file_completed :: "ctx \<Rightarrow> collection_key \<Rightarrow> file_identity \<Rightarrow> ledger \<Rightarrow> bool res" where
  "mem_file_completed c key file s =
     (case c of Some e \<Rightarrow> Inl e
      | None \<Rightarrow>
        (let ck = state_key key in
         if map_of (collections s) ck = None then Inr False
         else case map_of (inner (files s) ck) (identity file) of
                None \<Rightarrow> Inr False
              | Some r \<Rightarrow> Inr (identity (done_file r) = identity file)))"

definition mem_mark_completed ::
  "ctx \<Rightarrow> time \<Rightarrow> collection_key \<Rightarrow> file_identity \<Rightarrow> nat \<Rightarrow> ledger \<Rightarrow> unit res \<times> ledger" where
  "mem_mark_completed c now key file n s =
     (case c of Some e \<Rightarrow> (Inl e, s)
      | None \<Rightarrow>
        (let ck = state_key key in
         if map_of (collections s) ck = None then (Inl (not_begun key), s)
         else
          (let r = \<lparr>done_key = key, done_file = file, done_records = n, done_at = now\<rparr>;
               fs = put_inner ck (identity file) r (files s);
               ff = AList.map_entry ck (filter (\<lambda>(i, fr). f_path (fail_file fr) \<noteq> f_path file)) (failed_files s)
           in (Inr (), s\<lparr>files := fs, failed_files := ff\<rparr>))))"

definition mem_mark_failed ::
  "ctx \<Rightarrow> time \<Rightarrow> collection_key \<Rightarrow> file_identity \<Rightarrow> string \<Rightarrow> ledger \<Rightarrow> unit res \<times> ledger" where
  "mem_mark_failed c now key file msg s =
     (case c of Some e \<Rightarrow> (Inl e, s)
      | None \<Rightarrow>
        (let ck = state_key key; m = inner (failed_files s) ck;
             r0 = (case map_of m (identity file) of
                     Some r \<Rightarrow> r
                   | None \<Rightarrow> \<lparr>fail_key = key, fail_file = file, fail_error = '''', fail_at = 0, fail_attempts = 0\<rparr>);
             r1 = r0\<lparr>fail_error := msg, fail_at := now, fail_attempts := fail_attempts r0 + 1\<rparr>
         in (Inr (), s\<lparr>failed_files := put_inner ck (identity file) r1 (failed_files s)\<rparr>)))"

subsection \<open>Queries\<close>

text \<open>
  \<open>sort.Slice\<close> is a sort by the key its comparison reads; where two elements compare equal the
  code leaves their order open, and the model keeps the order of the iteration.
\<close>

definition mem_collection_records :: "ctx \<Rightarrow> source_id \<Rightarrow> ledger \<Rightarrow> collection_record list res" where
  "mem_collection_records c src s =
     (case c of Some e \<Rightarrow> Inl e
      | None \<Rightarrow> Inr (sort_key (\<lambda>r. k_date (rec_key r))
                  (filter (\<lambda>r. k_source (rec_key r) = src) (map snd (collections s)))))"

definition mem_file_records :: "ctx \<Rightarrow> collection_key \<Rightarrow> ledger \<Rightarrow> file_record list res" where
  "mem_file_records c key s =
     (case c of Some e \<Rightarrow> Inl e
      | None \<Rightarrow> Inr (sort_key (\<lambda>r. f_path (done_file r)) (map snd (inner (files s) (state_key key)))))"

fun add_source :: "source_id list \<Rightarrow> source_id \<Rightarrow> source_id list" where
  "add_source out src = (if src \<in> set out then out else out @ [src])"

definition mem_record_sources :: "ctx \<Rightarrow> ledger \<Rightarrow> source_id list res" where
  "mem_record_sources c s =
     (case c of Some e \<Rightarrow> Inl e
      | None \<Rightarrow>
        (let out1 = foldl add_source [] (map (\<lambda>(ck, r). k_source (rec_key r)) (collections s));
             out2 = foldl add_source out1
                      (concat (map (\<lambda>(ck, m). map (\<lambda>(i, r). k_source (done_key r)) m) (files s)))
         in Inr (sort out2)))"

definition mem_list_failures :: "ctx \<Rightarrow> source_id \<Rightarrow> ledger \<Rightarrow> file_failure list res" where
  "mem_list_failures c src s =
     (case c of Some e \<Rightarrow> Inl e
      | None \<Rightarrow> Inr (sort_key (\<lambda>r. (fail_at r, f_path (fail_file r)))
                  (filter (\<lambda>r. k_source (fail_key r) = src)
                    (concat (map (\<lambda>(ck, m). map snd m) (failed_files s))))))"

definition later_success ::
  "source_id \<Rightarrow> collection_date \<Rightarrow> collection_record \<Rightarrow> collection_date option \<Rightarrow> collection_date option" where
  "later_success src before rc best =
     (if k_source (rec_key rc) \<noteq> src \<or> rec_status rc \<noteq> StatusSucceeded then best
      else if \<not> date_after (k_date (rec_key rc)) before \<and>
              (case best of None \<Rightarrow> True | Some d \<Rightarrow> date_before d (k_date (rec_key rc)))
        then Some (k_date (rec_key rc))
      else best)"

definition mem_last_completed ::
  "ctx \<Rightarrow> source_id \<Rightarrow> collection_date \<Rightarrow> ledger \<Rightarrow> collection_date option res" where
  "mem_last_completed c src before s =
     (case c of Some e \<Rightarrow> Inl e
      | None \<Rightarrow> Inr (fold (later_success src before) (map snd (collections s)) None))"

definition mem_status_of :: "collection_key \<Rightarrow> ledger \<Rightarrow> status option" where
  "mem_status_of key s = map_option rec_status (map_of (collections s) (state_key key))"

definition incomplete :: "time \<Rightarrow> source_id \<Rightarrow> collection_date \<Rightarrow> duration \<Rightarrow> collection_record \<Rightarrow> bool" where
  "incomplete now src until stale rc \<longleftrightarrow>
     (if k_source (rec_key rc) \<noteq> src \<or> rec_status rc = StatusSucceeded \<or> rec_status rc = StatusSkipped then False
      else if date_after (k_date (rec_key rc)) until then False
      else if rec_status rc = StatusRunning \<and> time_sub now (rec_started rc) < stale then False
      else True)"

definition mem_list_incomplete ::
  "ctx \<Rightarrow> time \<Rightarrow> source_id \<Rightarrow> collection_date \<Rightarrow> duration \<Rightarrow> ledger \<Rightarrow> collection_key list res" where
  "mem_list_incomplete c now src until stale s =
     (case c of Some e \<Rightarrow> Inl e
      | None \<Rightarrow> Inr (sort_key (\<lambda>k. (k_date k, k_source k))
                  (map rec_key (filter (incomplete now src until stale) (map snd (collections s))))))"

subsection \<open>Migration\<close>

definition migrate_record ::
  "string \<times> collection_record \<Rightarrow> ledger \<times> nat \<times> nat \<Rightarrow> ledger \<times> nat \<times> nat" where
  "migrate_record = (\<lambda>(k, rc) (s, purged, converted).
     if rec_status rc = StatusSkipped then
       (s\<lparr>collections := AList.delete k (collections s), files := AList.delete k (files s),
          failed_files := AList.delete k (failed_files s)\<rparr>, purged + 1, converted)
     else if rec_status rc = StatusPending then
       (s\<lparr>collections := AList.update k (rc\<lparr>rec_status := StatusFailed\<rparr>) (collections s)\<rparr>,
        purged, converted + 1)
     else if rec_status rc = StatusSucceeded \<and> length (inner (failed_files s) k) > 0 then
       (s\<lparr>failed_files := AList.delete k (failed_files s)\<rparr>, purged + 1, converted)
     else (s, purged, converted))"

text \<open>
  The range over the map visits each of its entries once; the loop only deletes or overwrites
  the entry it is at.
\<close>

definition migrate_pre_instance :: "ledger \<Rightarrow> ledger \<times> nat \<times> nat" where
  "migrate_pre_instance s = fold migrate_record (collections s) (s, 0, 0)"

subsection \<open>Snapshots\<close>

record collection_json =
  cj_source :: source_id
  cj_date :: collection_date
  cj_status :: status
  cj_started :: time
  cj_ended :: time
  cj_note :: string

record file_json =
  fj_source :: source_id
  fj_date :: collection_date
  fj_path :: string
  fj_name :: string
  fj_size :: "64 word"
  fj_mtime :: time
  fj_hash :: string
  fj_records :: nat
  fj_at :: time

record failed_json =
  xj_source :: source_id
  xj_date :: collection_date
  xj_path :: string
  xj_name :: string
  xj_size :: "64 word"
  xj_mtime :: time
  xj_hash :: string
  xj_error :: string
  xj_at :: time
  xj_attempts :: nat

record memory_snapshot =
  snap_collections :: "collection_json list"
  snap_files :: "file_json list"
  snap_failed :: "failed_json list"

definition collection_to_json :: "collection_record \<Rightarrow> collection_json" where
  "collection_to_json r =
     \<lparr>cj_source = k_source (rec_key r), cj_date = k_date (rec_key r), cj_status = rec_status r,
      cj_started = rec_started r, cj_ended = rec_ended r, cj_note = rec_note r\<rparr>"

definition file_to_json :: "file_record \<Rightarrow> file_json" where
  "file_to_json r =
     \<lparr>fj_source = k_source (done_key r), fj_date = k_date (done_key r), fj_path = f_path (done_file r),
      fj_name = f_name (done_file r), fj_size = f_size (done_file r), fj_mtime = f_mtime (done_file r),
      fj_hash = f_hash (done_file r), fj_records = done_records r, fj_at = done_at r\<rparr>"

definition failed_to_json :: "file_failure \<Rightarrow> failed_json" where
  "failed_to_json r =
     \<lparr>xj_source = k_source (fail_key r), xj_date = k_date (fail_key r), xj_path = f_path (fail_file r),
      xj_name = f_name (fail_file r), xj_size = f_size (fail_file r), xj_mtime = f_mtime (fail_file r),
      xj_hash = f_hash (fail_file r), xj_error = fail_error r, xj_at = fail_at r,
      xj_attempts = fail_attempts r\<rparr>"

definition snapshot :: "ledger \<Rightarrow> memory_snapshot" where
  "snapshot s =
     \<lparr>snap_collections = sort_key (\<lambda>j. state_key (mk_key (cj_source j) (cj_date j)))
        (map (\<lambda>(ck, r). collection_to_json r) (collections s)),
      snap_files = sort_key fj_path (concat (map (\<lambda>(ck, m). map (\<lambda>(i, r). file_to_json r) m) (files s))),
      snap_failed = sort_key xj_at
        (concat (map (\<lambda>(ck, m). map (\<lambda>(i, r). failed_to_json r) m) (failed_files s)))\<rparr>"

definition collection_of_json :: "collection_json \<Rightarrow> collection_record" where
  "collection_of_json c =
     \<lparr>rec_key = mk_key (cj_source c) (cj_date c), rec_status = cj_status c, rec_started = cj_started c,
      rec_ended = cj_ended c, rec_note = cj_note c\<rparr>"

definition file_of_json :: "file_json \<Rightarrow> file_record" where
  "file_of_json f =
     \<lparr>done_key = mk_key (fj_source f) (fj_date f),
      done_file = \<lparr>f_source = fj_source f, f_path = fj_path f, f_name = fj_name f, f_size = fj_size f,
                   f_mtime = fj_mtime f, f_hash = fj_hash f\<rparr>,
      done_records = fj_records f, done_at = fj_at f\<rparr>"

definition failed_of_json :: "failed_json \<Rightarrow> file_failure" where
  "failed_of_json f =
     \<lparr>fail_key = mk_key (xj_source f) (xj_date f),
      fail_file = \<lparr>f_source = xj_source f, f_path = xj_path f, f_name = xj_name f, f_size = xj_size f,
                   f_mtime = xj_mtime f, f_hash = xj_hash f\<rparr>,
      fail_error = xj_error f, fail_at = xj_at f, fail_attempts = xj_attempts f\<rparr>"

definition restore :: "memory_snapshot \<Rightarrow> ledger \<Rightarrow> ledger" where
  "restore sn s =
     s\<lparr>collections := fold (\<lambda>c. AList.update (state_key (mk_key (cj_source c) (cj_date c)))
          (collection_of_json c)) (snap_collections sn) [],
       files := fold (\<lambda>f. put_inner (state_key (mk_key (fj_source f) (fj_date f)))
          (identity (done_file (file_of_json f))) (file_of_json f)) (snap_files sn) [],
       failed_files := fold (\<lambda>f. put_inner (state_key (mk_key (xj_source f) (xj_date f)))
          (identity (fail_file (failed_of_json f))) (failed_of_json f)) (snap_failed sn) []\<rparr>"

end
