(* ===== verification/LedgerLaws.thy ===== *)
theory LedgerLaws
  imports Ledger
begin

text \<open>
  What the ledger promises: its invariant under every sequence of operations, the contract a
  collector relies on (a completed file stays completed, a succeeded date stays closed), and
  that its listings are functions of the ledger's contents and not of Go's map order.
\<close>

section \<open>Keys\<close>

lemma bar_split:
  assumes "s @ CHR ''|'' # d = s' @ CHR ''|'' # d'" "CHR ''|'' \<notin> set d" "CHR ''|'' \<notin> set d'"
  shows "s = s' \<and> d = d'"
proof -
  have "rev d @ CHR ''|'' # rev s = rev d' @ CHR ''|'' # rev s'"
    using arg_cong [OF assms(1), of rev] by simp
  moreover have "takeWhile (\<lambda>c. c \<noteq> CHR ''|'') (rev d @ CHR ''|'' # rev s) = rev d"
    "takeWhile (\<lambda>c. c \<noteq> CHR ''|'') (rev d' @ CHR ''|'' # rev s') = rev d'"
    using assms(2,3) by (subst takeWhile_append2; auto)+
  ultimately have "rev d = rev d'" by simp
  with assms(1) show ?thesis by simp
qed

lemma state_key_inject [simp]: "state_key k = state_key k' \<longleftrightarrow> k = k'"
proof
  assume "state_key k = state_key k'"
  then have "k_source k = k_source k' \<and> date_string (k_date k) = date_string (k_date k')"
    by (intro bar_split) (simp_all add: state_key_def date_string_no_bar)
  then show "k = k'" by (intro collection_key.equality) simp_all
qed simp

section \<open>The invariant\<close>

definition keyed ::
  "('a \<Rightarrow> collection_key) \<Rightarrow> ('a \<Rightarrow> file_identity) \<Rightarrow> (string \<times> (string \<times> 'a) list) list \<Rightarrow> bool" where
  "keyed kf ff m \<longleftrightarrow> wf_map m \<and>
     list_all (\<lambda>(ck, i). wf_map i \<and> list_all (\<lambda>(fid, r). fid = identity (ff r) \<and> ck = state_key (kf r)) i) m"

definition ledger_inv :: "ledger \<Rightarrow> bool" where
  "ledger_inv s \<longleftrightarrow>
     wf_map (collections s) \<and> list_all (\<lambda>(ck, r). ck = state_key (rec_key r)) (collections s) \<and>
     keyed done_key done_file (files s) \<and> keyed fail_key fail_file (failed_files s) \<and>
     set (keys_of (files s)) \<subseteq> set (keys_of (collections s))"

lemma keyedI:
  assumes "wf_map m" "\<And>ck i. (ck, i) \<in> set m \<Longrightarrow> wf_map i"
    "\<And>ck i fid r. (ck, i) \<in> set m \<Longrightarrow> (fid, r) \<in> set i \<Longrightarrow> fid = identity (ff r) \<and> ck = state_key (kf r)"
  shows "keyed kf ff m"
  unfolding keyed_def list_all_iff using assms by fast

lemma keyedD:
  assumes "keyed kf ff m" "(ck, i) \<in> set m"
  shows "wf_map i" "(fid, r) \<in> set i \<Longrightarrow> fid = identity (ff r) \<and> ck = state_key (kf r)"
  using assms unfolding keyed_def list_all_iff by fastforce+

lemma keyed_wf [intro]: "keyed kf ff m \<Longrightarrow> wf_map m"
  by (simp add: keyed_def)

lemma keys_update [simp]: "fst ` set (AList.update k v m) = insert k (fst ` set m)"
  using update_keys_set [of k v m] by simp

lemma keys_delete [simp]: "fst ` set (AList.delete k m) = fst ` set m - {k}"
  by (induction m) auto

lemma keys_map_entry_image [simp]: "fst ` set (AList.map_entry k f m) = fst ` set m"
  by (induction m) auto

lemma update_mem: "(a, b) \<in> set (AList.update k v m) \<Longrightarrow> (a, b) = (k, v) \<or> (a, b) \<in> set m"
  by (induction m) (auto split: if_splits)

lemma delete_mem: "p \<in> set (AList.delete k m) \<Longrightarrow> p \<in> set m \<and> fst p \<noteq> k"
  by (auto simp: AList.delete_eq)

lemma inner_mem: "keyed kf ff m \<Longrightarrow> p \<in> set (inner m ck) \<Longrightarrow> (ck, inner m ck) \<in> set m"
  by (auto simp: inner_def split: option.splits dest: map_of_SomeD)

lemma inner_wf: "keyed kf ff m \<Longrightarrow> wf_map (inner m ck)"
proof (cases "map_of m ck")
  case (Some i)
  assume "keyed kf ff m"
  then have "wf_map i" using map_of_SomeD [OF Some] by (rule keyedD(1))
  then show ?thesis by (simp add: inner_def Some)
qed (simp add: inner_def)

lemma keyed_inner:
  assumes "keyed kf ff m" "(fid, r) \<in> set (inner m ck)"
  shows "fid = identity (ff r) \<and> ck = state_key (kf r)"
  using keyedD(2) [OF assms(1) inner_mem [OF assms] assms(2)] .

lemma keyed_put_inner:
  assumes "keyed kf ff m" "fid = identity (ff r)" "ck = state_key (kf r)"
  shows "keyed kf ff (put_inner ck fid r m)"
proof (rule keyedI)
  show "wf_map (put_inner ck fid r m)" using assms(1) by (auto simp: put_inner_def)
next
  fix ck' i assume "(ck', i) \<in> set (put_inner ck fid r m)"
  then have "(ck', i) = (ck, AList.update fid r (inner m ck)) \<or> (ck', i) \<in> set m"
    unfolding put_inner_def by (rule update_mem)
  then show "wf_map i" using assms(1) by (auto intro: inner_wf keyedD(1))
next
  fix ck' i fid' r' assume i: "(ck', i) \<in> set (put_inner ck fid r m)" and r': "(fid', r') \<in> set i"
  from i have "(ck', i) = (ck, AList.update fid r (inner m ck)) \<or> (ck', i) \<in> set m"
    unfolding put_inner_def by (rule update_mem)
  then show "fid' = identity (ff r') \<and> ck' = state_key (kf r')"
  proof
    assume "(ck', i) = (ck, AList.update fid r (inner m ck))"
    with r' have "ck' = ck" "(fid', r') = (fid, r) \<or> (fid', r') \<in> set (inner m ck)"
      by (auto dest: update_mem)
    with assms(2,3) keyed_inner [OF assms(1), of fid' r' ck] show ?thesis by auto
  next
    assume "(ck', i) \<in> set m"
    with keyedD(2) [OF assms(1)] r' show ?thesis by blast
  qed
qed

lemma keyed_delete [intro]: "keyed kf ff m \<Longrightarrow> keyed kf ff (AList.delete ck m)"
  by (rule keyedI) (auto dest: delete_mem keyedD)

lemma keys_map_entry [simp]: "keys_of (AList.map_entry k f m) = keys_of m"
  by (induction m) auto

lemma map_entry_mem:
  "(a, b) \<in> set (AList.map_entry k f m) \<Longrightarrow> \<exists>c. (a, c) \<in> set m \<and> (b = c \<or> b = f c)"
  by (induction m) (auto split: if_splits)

lemma keyed_map_entry_filter:
  assumes "keyed kf ff m"
  shows "keyed kf ff (AList.map_entry ck (filter P) m)"
proof (rule keyedI)
  show "wf_map (AList.map_entry ck (filter P) m)" using keyed_wf [OF assms] by (simp only: keys_map_entry)
next
  fix a b assume "(a, b) \<in> set (AList.map_entry ck (filter P) m)"
  then obtain c where c: "(a, c) \<in> set m" and b: "b = c \<or> b = filter P c" using map_entry_mem by fast
  from keyedD(1) [OF assms c] have "wf_map c" .
  with b show "wf_map b" by (elim disjE) (simp_all only: wf_map_filter)
next
  fix a b fid r assume "(a, b) \<in> set (AList.map_entry ck (filter P) m)" "(fid, r) \<in> set b"
  then obtain c where "(a, c) \<in> set m" "(fid, r) \<in> set c" using map_entry_mem by (metis filter_is_subset subsetD)
  with keyedD(2) [OF assms] show "fid = identity (ff r) \<and> a = state_key (kf r)" by blast
qed

section \<open>Operations as steps\<close>

datatype ledger_op =
    OpBegin ctx time collection_key duration
  | OpEnd ctx time time collection_key status string
  | OpDrop ctx collection_key
  | OpCompleted ctx time collection_key file_identity nat
  | OpFailed ctx time collection_key file_identity string
  | OpAppendMode

fun apply_op :: "ledger_op \<Rightarrow> ledger \<Rightarrow> ledger" where
  "apply_op (OpBegin c now k lease) s = snd (mem_begin c now k lease s)"
| "apply_op (OpEnd c now1 now2 k st note) s = snd (mem_end c now1 now2 k st note s)"
| "apply_op (OpDrop c k) s = snd (mem_drop c k s)"
| "apply_op (OpCompleted c now k f n) s = snd (mem_mark_completed c now k f n s)"
| "apply_op (OpFailed c now k f msg) s = snd (mem_mark_failed c now k f msg s)"
| "apply_op OpAppendMode s = set_append_mode s"

fun op_key :: "ledger_op \<Rightarrow> collection_key option" where
  "op_key (OpBegin c now k lease) = Some k"
| "op_key (OpEnd c now1 now2 k st note) = Some k"
| "op_key (OpDrop c k) = Some k"
| "op_key (OpCompleted c now k f n) = Some k"
| "op_key (OpFailed c now k f msg) = Some k"
| "op_key OpAppendMode = None"

fun drops :: "collection_key \<Rightarrow> ledger_op \<Rightarrow> bool" where
  "drops k (OpDrop c k') \<longleftrightarrow> k = k'"
| "drops k _ \<longleftrightarrow> False"

lemmas mem_defs = mem_begin_def mem_end_def mem_drop_def mem_mark_completed_def mem_mark_failed_def
  open_collection_def set_append_mode_def Let_def

lemma new_memory_inv [simp]: "ledger_inv new_memory"
  by (simp add: ledger_inv_def new_memory_def keyed_def)

text \<open>Replacing the record of a key, and putting a file record under a key that is present.\<close>

lemma inv_put_collection:
  assumes "ledger_inv s" "ck = state_key (rec_key r)"
  shows "ledger_inv (s\<lparr>collections := AList.update ck r (collections s)\<rparr>)"
  using assms unfolding ledger_inv_def list_all_iff by (auto dest!: update_mem)

lemma inv_delete_failed:
  "ledger_inv (s\<lparr>collections := cs\<rparr>) \<Longrightarrow>
     ledger_inv (s\<lparr>collections := cs, failed_files := AList.delete ck (failed_files s)\<rparr>)"
  by (simp add: ledger_inv_def keyed_delete)

lemma inv_lookup: "ledger_inv s \<Longrightarrow> map_of (collections s) ck = Some r \<Longrightarrow> ck = state_key (rec_key r)"
  by (auto simp: ledger_inv_def list_all_iff dest: map_of_SomeD)

lemma begin_inv: "ledger_inv s \<Longrightarrow> ledger_inv (snd (mem_begin c now k lease s))"
  by (auto simp: mem_begin_def open_collection_def inv_put_collection split: option.split)

lemma end_inv: "ledger_inv s \<Longrightarrow> ledger_inv (snd (mem_end c now1 now2 k st note s))"
  using inv_lookup [of s "state_key k"]
  by (auto simp: mem_end_def Let_def split: option.split intro!: inv_put_collection inv_delete_failed)


lemma drop_inv: "ledger_inv s \<Longrightarrow> ledger_inv (snd (mem_drop c k s))"
  unfolding ledger_inv_def list_all_iff
  by (auto simp: mem_drop_def Let_def split: option.split dest!: delete_mem)

lemma keys_put_inner [simp]: "fst ` set (put_inner ck i v m) = insert ck (fst ` set m)"
  by (simp add: put_inner_def)

lemma mark_completed_inv: "ledger_inv s \<Longrightarrow> ledger_inv (snd (mem_mark_completed c now k f n s))"
  unfolding ledger_inv_def
  by (cases c) (simp_all add: mem_mark_completed_def Let_def map_of_eq_None_iff
      keyed_put_inner keyed_map_entry_filter)

lemma mark_failed_inv:
  assumes "ledger_inv s"
  shows "ledger_inv (snd (mem_mark_failed c now k f msg s))"
proof -
  have k: "keyed fail_key fail_file (failed_files s)" using assms by (simp add: ledger_inv_def)
  have "identity f = identity (fail_file r) \<and> state_key k = state_key (fail_key r)"
    if "map_of (inner (failed_files s) (state_key k)) (identity f) = Some r" for r
    using keyed_inner [OF k map_of_SomeD [OF that]] .
  with assms k show ?thesis
    by (auto simp: mem_mark_failed_def Let_def ledger_inv_def split: option.split intro!: keyed_put_inner)
qed

lemma apply_op_inv: "ledger_inv s \<Longrightarrow> ledger_inv (apply_op op s)"
  by (cases op) (simp_all add: begin_inv end_inv drop_inv mark_completed_inv mark_failed_inv,
      simp add: ledger_inv_def set_append_mode_def)

section \<open>The contract of a ledger\<close>

text \<open>
  What a collector relies on, for any implementation of the operations: a completed file stays
  completed until its key is dropped, marking a file of a known key completes it, and an
  operation on one key leaves the status of every other key alone.
\<close>

locale ledger_contract =
  fixes step :: "ledger_op \<Rightarrow> 's \<Rightarrow> 's"
    and inv :: "'s \<Rightarrow> bool"
    and status_of :: "collection_key \<Rightarrow> 's \<Rightarrow> status option"
    and finished :: "collection_key \<Rightarrow> file_identity \<Rightarrow> 's \<Rightarrow> bool"
  assumes inv_step: "inv s \<Longrightarrow> inv (step op s)"
    and finished_keeps: "inv s \<Longrightarrow> finished k f s \<Longrightarrow> \<not> drops k op \<Longrightarrow> finished k f (step op s)"
    and finished_marks: "inv s \<Longrightarrow> status_of k s \<noteq> None \<Longrightarrow> finished k f (step (OpCompleted None t k f n) s)"
    and status_frame: "inv s \<Longrightarrow> op_key op \<noteq> Some k \<Longrightarrow> status_of k (step op s) = status_of k s"
begin

lemma inv_steps: "inv s \<Longrightarrow> inv (fold step ops s)"
  by (induction ops arbitrary: s) (auto intro: inv_step)

lemma finished_survives:
  "inv s \<Longrightarrow> finished k f s \<Longrightarrow> list_all (\<lambda>op. \<not> drops k op) ops \<Longrightarrow> finished k f (fold step ops s)"
  by (induction ops arbitrary: s) (auto intro: inv_step finished_keeps)

lemma marked_survives:
  assumes "inv s" "status_of k s \<noteq> None" "list_all (\<lambda>op. \<not> drops k op) ops"
  shows "finished k f (fold step (OpCompleted None t k f n # ops) s)"
  using assms by (auto intro!: finished_survives inv_step finished_marks)

lemma status_survives:
  "inv s \<Longrightarrow> list_all (\<lambda>op. op_key op \<noteq> Some k) ops \<Longrightarrow> status_of k (fold step ops s) = status_of k s"
  by (induction ops arbitrary: s) (simp_all add: inv_step status_frame)

end

definition mem_finished :: "collection_key \<Rightarrow> file_identity \<Rightarrow> ledger \<Rightarrow> bool" where
  "mem_finished k f s \<longleftrightarrow> mem_file_completed None k f s = Inr True"

lemma mem_finished_iff:
  assumes "ledger_inv s"
  shows "mem_finished k f s \<longleftrightarrow> map_of (inner (files s) (state_key k)) (identity f) \<noteq> None"
proof -
  have fk: "keyed done_key done_file (files s)" using assms by (simp add: ledger_inv_def)
  show ?thesis
  proof (cases "map_of (inner (files s) (state_key k)) (identity f)")
    case None
    then show ?thesis by (simp add: mem_finished_def mem_file_completed_def Let_def)
  next
    case (Some r)
    then have "(identity f, r) \<in> set (inner (files s) (state_key k))" by (rule map_of_SomeD)
    with keyed_inner [OF fk this] inner_mem [OF fk this]
    have "identity (done_file r) = identity f" "state_key k \<in> fst ` set (files s)" by (force simp: image_iff)+
    moreover from this(2) have "map_of (collections s) (state_key k) \<noteq> None"
      using assms by (auto simp: ledger_inv_def map_of_eq_None_iff)
    ultimately show ?thesis using Some by (auto simp: mem_finished_def mem_file_completed_def)
  qed
qed

lemma inner_put_inner:
  "inner (put_inner ck i v m) ck' = (if ck' = ck then AList.update i v (inner m ck) else inner m ck')"
  by (simp add: inner_def put_inner_def update_conv' split: option.split)

lemma map_of_delete [simp]: "map_of (AList.delete k m) k' = (if k' = k then None else map_of m k')"
  by (induction m) auto

lemma inner_delete [simp]: "inner (AList.delete ck m) ck' = (if ck' = ck then [] else inner m ck')"
  by (simp add: inner_def)

lemma record_frame:
  "op_key op \<noteq> Some k \<Longrightarrow>
     map_of (collections (apply_op op s)) (state_key k) = map_of (collections s) (state_key k)"
  by (cases op) (auto simp: mem_defs update_conv' split: option.split)

lemma record_frame_fold:
  "list_all (\<lambda>op. op_key op \<noteq> Some k) ops \<Longrightarrow>
     map_of (collections (fold apply_op ops s)) (state_key k) = map_of (collections s) (state_key k)"
  by (induction ops arbitrary: s) (simp_all add: record_frame)

lemma status_frame_mem:
  "op_key op \<noteq> Some k \<Longrightarrow> mem_status_of k (apply_op op s) = mem_status_of k s"
  by (simp add: mem_status_of_def record_frame)

lemma files_keep:
  "map_of (inner (files s) (state_key k)) i \<noteq> None \<Longrightarrow> \<not> drops k op \<Longrightarrow>
     map_of (inner (files (apply_op op s)) (state_key k)) i \<noteq> None"
  by (cases op) (auto simp: mem_defs inner_put_inner update_conv' split: option.split)

lemma completed_marks:
  "mem_status_of k s \<noteq> None \<Longrightarrow>
     map_of (inner (files (apply_op (OpCompleted None t k f n) s)) (state_key k)) (identity f) \<noteq> None"
  by (auto simp: mem_defs mem_status_of_def inner_put_inner update_conv')

interpretation memory: ledger_contract apply_op ledger_inv mem_status_of mem_finished
proof
  show "ledger_inv (apply_op op s)" if "ledger_inv s" for op s
    using that by (rule apply_op_inv)
  show "mem_finished k f (apply_op op s)"
    if "ledger_inv s" "mem_finished k f s" "\<not> drops k op" for op k f s
    using that files_keep by (metis apply_op_inv mem_finished_iff)
  show "mem_finished k f (apply_op (OpCompleted None t k f n) s)"
    if "ledger_inv s" "mem_status_of k s \<noteq> None" for k f t n s
    using that completed_marks by (metis apply_op_inv mem_finished_iff)
  show "mem_status_of k (apply_op op s) = mem_status_of k s"
    if "ledger_inv s" "op_key op \<noteq> Some k" for op k s
    using that(2) by (rule status_frame_mem)
qed

section \<open>Ledgers with the same contents\<close>

text \<open>
  Go's maps have no order: two association lists with the same entries stand for one map. What
  a query answers may only depend on the entries.
\<close>

definition same_contents :: "ledger \<Rightarrow> ledger \<Rightarrow> bool" where
  "same_contents s s' \<longleftrightarrow>
     map_of (collections s) = map_of (collections s') \<and>
     (\<forall>ck. map_of (inner (files s) ck) = map_of (inner (files s') ck)) \<and>
     (\<forall>ck. map_of (inner (failed_files s) ck) = map_of (inner (failed_files s') ck)) \<and>
     append_mode s = append_mode s'"

lemma same_map_set:
  assumes "wf_map m" "wf_map m'" "map_of m = map_of m'"
  shows "set m = set m'"
  unfolding set_map_of_compr [OF assms(1)] set_map_of_compr [OF assms(2)] assms(3) ..

lemma same_map_mset:
  assumes "wf_map m" "wf_map m'" "map_of m = map_of m'"
  shows "mset m = mset m'"
  using same_map_set [OF assms] assms by (simp add: distinct_map set_eq_iff_mset_eq_distinct)

lemma collections_mset:
  assumes "ledger_inv s" "ledger_inv s'" "same_contents s s'"
  shows "mset (map snd (collections s)) = mset (map snd (collections s'))"
  using assms same_map_mset [of "collections s" "collections s'"]
  by (simp add: ledger_inv_def same_contents_def)

lemma collections_key_inj:
  assumes "ledger_inv s"
  shows "distinct (map rec_key (map snd (collections s)))"
proof -
  have "map state_key (map rec_key (map snd (collections s))) = keys_of (collections s)"
    using assms unfolding ledger_inv_def list_all_iff by (auto intro!: map_cong)
  then show ?thesis using assms unfolding ledger_inv_def by (metis distinct_map)
qed

lemma collections_inj: "ledger_inv s \<Longrightarrow> inj_on rec_key (snd ` set (collections s))"
  using collections_key_inj [of s] by (auto simp: distinct_map inj_on_def)

definition eligible :: "source_id \<Rightarrow> collection_date \<Rightarrow> collection_record \<Rightarrow> bool" where
  "eligible src before r \<longleftrightarrow>
     k_source (rec_key r) = src \<and> rec_status r = StatusSucceeded \<and> k_date (rec_key r) \<le> before"

definition opt_max :: "collection_date set \<Rightarrow> collection_date option" where
  "opt_max A = (if A = {} then None else Some (Max A))"

lemma later_success_eq:
  "later_success src before r best =
     (if eligible src before r
      then Some (case best of None \<Rightarrow> k_date (rec_key r) | Some b \<Rightarrow> max (k_date (rec_key r)) b) else best)"
  by (auto simp: later_success_def eligible_def max_def not_less split: option.split)

lemma later_success_max:
  assumes "finite A"
  shows "later_success src before r (opt_max A) =
    opt_max (if eligible src before r then insert (k_date (rec_key r)) A else A)"
  using assms by (cases "A = {}") (simp_all add: later_success_eq opt_max_def)

lemma fold_later_success:
  assumes "finite A"
  shows "fold (later_success src before) rs (opt_max A) =
    opt_max (A \<union> (\<lambda>r. k_date (rec_key r)) ` {r \<in> set rs. eligible src before r})"
  using assms
proof (induction rs arbitrary: A)
  case (Cons r rs)
  have "finite (if eligible src before r then insert (k_date (rec_key r)) A else A)" using Cons.prems by simp
  from Cons.IH [OF this] show ?case
    by (simp add: later_success_max [OF Cons.prems]) (auto intro!: arg_cong [of _ _ opt_max])
qed simp

definition success_dates :: "source_id \<Rightarrow> collection_date \<Rightarrow> ledger \<Rightarrow> collection_date set" where
  "success_dates src before s =
     {k_date k |k. k_source k = src \<and> k_date k \<le> before \<and> mem_status_of k s = Some StatusSucceeded}"

lemma status_record:
  assumes "ledger_inv s"
  shows "mem_status_of k s = Some st \<longleftrightarrow> (\<exists>r \<in> snd ` set (collections s). rec_key r = k \<and> rec_status r = st)"
proof
  assume "mem_status_of k s = Some st"
  then obtain r where r: "map_of (collections s) (state_key k) = Some r" "rec_status r = st"
    by (auto simp: mem_status_of_def)
  moreover have "rec_key r = k" using inv_lookup [OF assms r(1)] by simp
  ultimately show "\<exists>r \<in> snd ` set (collections s). rec_key r = k \<and> rec_status r = st"
    by (force dest: map_of_SomeD)
next
  assume "\<exists>r \<in> snd ` set (collections s). rec_key r = k \<and> rec_status r = st"
  then obtain ck r where r: "(ck, r) \<in> set (collections s)" "rec_key r = k" "rec_status r = st" by auto
  moreover have "ck = state_key k" using assms r by (auto simp: ledger_inv_def list_all_iff)
  ultimately have "map_of (collections s) (state_key k) = Some r"
    using assms by (simp add: ledger_inv_def)
  with r show "mem_status_of k s = Some st" by (simp add: mem_status_of_def)
qed

lemma success_dates_records:
  assumes "ledger_inv s"
  shows "success_dates src before s =
    (\<lambda>r. k_date (rec_key r)) ` {r \<in> set (map snd (collections s)). eligible src before r}"
  unfolding success_dates_def status_record [OF assms] eligible_def by auto

lemma last_completed_spec:
  assumes "ledger_inv s"
  shows "mem_last_completed None src before s = Inr (opt_max (success_dates src before s))"
  unfolding success_dates_records [OF assms] mem_last_completed_def
  using fold_later_success [of "{}"] by (simp add: opt_max_def [of "{}"])

section \<open>Listings\<close>

lemma sort_key_perm:
  assumes "mset xs = mset ys" "inj_on f (set xs)"
  shows "sort_key f xs = sort_key f ys"
  using sort_key_inj_key_eq [OF _ assms(2), of "sort_key f ys"] assms(1) by simp

lemma collection_of_key:
  assumes "ledger_inv s"
  shows "r \<in> set (map snd (collections s)) \<longleftrightarrow> map_of (collections s) (state_key (rec_key r)) = Some r"
proof
  assume "r \<in> set (map snd (collections s))"
  then obtain ck where m: "(ck, r) \<in> set (collections s)" by auto
  then have "ck = state_key (rec_key r)" using assms by (auto simp: ledger_inv_def list_all_iff)
  with m assms show "map_of (collections s) (state_key (rec_key r)) = Some r"
    by (simp add: ledger_inv_def)
qed (force dest: map_of_SomeD)

lemma list_incomplete_spec:
  assumes inv: "ledger_inv s" and out: "mem_list_incomplete None now src until stale s = Inr ks"
  shows "sorted (map k_date ks)" "distinct ks"
    "set ks = {k. \<exists>r. map_of (collections s) (state_key k) = Some r \<and> incomplete now src until stale r}"
    "list_all (\<lambda>k. k_source k = src \<and> k_date k \<le> until) ks"
proof -
  let ?P = "incomplete now src until stale"
  have ks: "ks = sort_key (\<lambda>k. (k_date k, k_source k)) (map rec_key (filter ?P (map snd (collections s))))"
    using out by (simp add: mem_list_incomplete_def)
  have "sorted (map (\<lambda>k. (k_date k, k_source k)) ks)" unfolding ks by (rule sorted_sort_key)
  then show "sorted (map k_date ks)"
    by (induction ks) (auto simp: less_eq_prod_def)
  have "distinct (map rec_key (filter ?P (map snd (collections s))))"
    using collections_key_inj [OF inv] by (rule distinct_map_filter)
  then show "distinct ks" unfolding ks by (simp only: distinct_sort)
  have set: "set ks = rec_key ` {r \<in> set (map snd (collections s)). ?P r}" unfolding ks by auto
  then show "list_all (\<lambda>k. k_source k = src \<and> k_date k \<le> until) ks"
    by (auto simp: list_all_iff incomplete_def split: if_splits)
  show "set ks = {k. \<exists>r. map_of (collections s) (state_key k) = Some r \<and> ?P r}"
  proof (intro subset_antisym subsetI)
    fix k assume "k \<in> set ks"
    then obtain r where "r \<in> set (map snd (collections s))" "?P r" "k = rec_key r" unfolding set by blast
    then show "k \<in> {k. \<exists>r. map_of (collections s) (state_key k) = Some r \<and> ?P r}"
      using collection_of_key [OF inv, of r] by blast
  next
    fix k assume "k \<in> {k. \<exists>r. map_of (collections s) (state_key k) = Some r \<and> ?P r}"
    then obtain r where r: "map_of (collections s) (state_key k) = Some r" "?P r" by blast
    have k: "k = rec_key r" using inv_lookup [OF inv r(1)] by simp
    then have "r \<in> set (map snd (collections s))" using r(1) collection_of_key [OF inv, of r] by simp
    with r(2) k show "k \<in> set ks" unfolding set by blast
  qed
qed

lemma queries_same:
  assumes inv: "ledger_inv s" "ledger_inv s'" and same: "same_contents s s'"
  shows "mem_collection_records c src s = mem_collection_records c src s'"
    and "mem_last_completed c src before s = mem_last_completed c src before s'"
    and "mem_list_incomplete c now src until stale s = mem_list_incomplete c now src until stale s'"
    and "mem_status_of k s = mem_status_of k s'"
    and "mem_file_completed c k f s = mem_file_completed c k f s'"
proof -
  have m: "mset (map snd (collections s)) = mset (map snd (collections s'))"
    by (rule collections_mset [OF inv same])
  have inj: "inj_on rec_key (set (map snd (collections s)))" using collections_inj [OF inv(1)] by simp
  have "inj_on (\<lambda>r. k_date (rec_key r)) (set (filter (\<lambda>r. k_source (rec_key r) = src) (map snd (collections s))))"
  proof (rule inj_onI)
    fix x y
    assume x: "x \<in> set (filter (\<lambda>r. k_source (rec_key r) = src) (map snd (collections s)))"
      and y: "y \<in> set (filter (\<lambda>r. k_source (rec_key r) = src) (map snd (collections s)))"
      and d: "k_date (rec_key x) = k_date (rec_key y)"
    then have "rec_key x = rec_key y" by (intro collection_key.equality) auto
    with inj_onD [OF inj this] x y show "x = y" by auto
  qed
  from sort_key_perm [OF _ this] m
  show "mem_collection_records c src s = mem_collection_records c src s'"
    by (auto simp: mem_collection_records_def simp del: mset_map split: option.split)
  have "inj_on (\<lambda>k. (k_date k, k_source k)) A" for A :: "collection_key set"
    by (auto simp: inj_on_def intro!: collection_key.equality)
  moreover have "mset (map rec_key (filter (incomplete now src until stale) (map snd (collections s)))) =
    mset (map rec_key (filter (incomplete now src until stale) (map snd (collections s'))))"
    using m by (simp only: mset_map mset_filter)
  ultimately show "mem_list_incomplete c now src until stale s = mem_list_incomplete c now src until stale s'"
    using sort_key_perm by (auto simp: mem_list_incomplete_def simp del: mset_map split: option.split)
  have cs: "map_of (collections s) = map_of (collections s')" using same by (simp add: same_contents_def)
  then show st: "mem_status_of k s = mem_status_of k s'" for k by (simp add: mem_status_of_def)
  show "mem_last_completed c src before s = mem_last_completed c src before s'"
    using last_completed_spec [OF inv(1)] last_completed_spec [OF inv(2)]
    by (cases c) (simp_all add: mem_last_completed_def success_dates_def st)
  show "mem_file_completed c k f s = mem_file_completed c k f s'"
    using same by (cases c) (simp_all add: mem_file_completed_def same_contents_def Let_def)
qed

section \<open>Leases and closed dates\<close>

lemma begun_record:
  "mem_begin None now k lease s = (Inr True, s1) \<Longrightarrow>
     \<exists>r. map_of (collections s1) (state_key k) = Some r \<and> rec_status r = StatusRunning \<and> rec_started r = now"
  by (auto simp: mem_begin_def open_collection_def update_conv' split: option.splits if_splits)

lemma second_begin:
  assumes "mem_begin None now k lease s = (Inr True, s1)" "list_all (\<lambda>op. op_key op \<noteq> Some k) ops"
  shows "fst (mem_begin None now' k lease' (fold apply_op ops s1)) = Inr (\<not> time_sub now' now < lease')"
proof -
  from begun_record [OF assms(1)] obtain r
    where r: "map_of (collections s1) (state_key k) = Some r" "rec_status r = StatusRunning" "rec_started r = now"
    by blast
  then have "map_of (collections (fold apply_op ops s1)) (state_key k) = Some r"
    using record_frame_fold [OF assms(2)] by simp
  with r show ?thesis by (simp add: mem_begin_def)
qed

lemma begin_after_success:
  assumes "mem_status_of k s \<noteq> None" "s1 = snd (mem_end None now1 now2 k StatusSucceeded note s)"
    "list_all (\<lambda>op. op_key op \<noteq> Some k) ops"
  shows "fst (mem_begin None now k lease (fold apply_op ops s1)) = Inr (append_mode (fold apply_op ops s1))"
    "inner (failed_files s1) (state_key k) = []"
proof -
  from assms(1) obtain r0 where "map_of (collections s) (state_key k) = Some r0"
    by (auto simp: mem_status_of_def)
  then have "\<exists>r. map_of (collections s1) (state_key k) = Some r \<and> rec_status r = StatusSucceeded"
    and e: "inner (failed_files s1) (state_key k) = []"
    by (simp_all add: assms(2) mem_end_def Let_def update_conv')
  then obtain r where r: "map_of (collections s1) (state_key k) = Some r" "rec_status r = StatusSucceeded" by blast
  then have "map_of (collections (fold apply_op ops s1)) (state_key k) = Some r"
    using record_frame_fold [OF assms(3)] by simp
  with r show "fst (mem_begin None now k lease (fold apply_op ops s1)) = Inr (append_mode (fold apply_op ops s1))"
    by (simp add: mem_begin_def)
  show "inner (failed_files s1) (state_key k) = []" by (rule e)
qed

section \<open>The failure ledger\<close>

definition attempts :: "collection_key \<Rightarrow> file_identity \<Rightarrow> ledger \<Rightarrow> nat" where
  "attempts k f s =
     (case map_of (inner (failed_files s) (state_key k)) (identity f) of None \<Rightarrow> 0 | Some r \<Rightarrow> fail_attempts r)"

lemma failed_frame:
  "op_key op \<noteq> Some k \<Longrightarrow>
     inner (failed_files (apply_op op s)) (state_key k) = inner (failed_files s) (state_key k)"
proof (cases op)
  case (OpCompleted c t k' f n)
  assume "op_key op \<noteq> Some k"
  with OpCompleted show ?thesis
    by (auto simp: mem_defs inner_def map_of_map_entry split: option.split)
qed (auto simp: mem_defs inner_put_inner split: option.split)

lemma failed_frame_fold:
  "list_all (\<lambda>op. op_key op \<noteq> Some k) ops \<Longrightarrow>
     inner (failed_files (fold apply_op ops s)) (state_key k) = inner (failed_files s) (state_key k)"
  by (induction ops arbitrary: s) (simp_all add: failed_frame)

lemma mark_failed_attempts:
  "attempts k f (apply_op (OpFailed None t k f msg) s) = attempts k f s + 1"
  by (auto simp: attempts_def mem_defs inner_put_inner update_conv' split: option.split)

lemma nested_mem:
  "(ck, i) \<in> set m \<Longrightarrow> (fid, r) \<in> set i \<Longrightarrow> r \<in> set (concat (map (\<lambda>(ck, j). map snd j) m))"
  by force

lemma set_list_failures:
  assumes "mem_list_failures None src s = Inr out"
  shows "set out = {r \<in> set (concat (map (\<lambda>(ck, j). map snd j) (failed_files s))). k_source (fail_key r) = src}"
proof -
  have "out = sort_key (\<lambda>r. (fail_at r, f_path (fail_file r))) (filter (\<lambda>r. k_source (fail_key r) = src)
    (concat (map (\<lambda>(ck, j). map snd j) (failed_files s))))"
    using assms by (simp add: mem_list_failures_def)
  then show ?thesis by (simp only: set_sort set_filter)
qed

lemma mark_failed_listed:
  assumes "ledger_inv s" "mem_list_failures None (k_source k) (apply_op (OpFailed None t k f msg) s) = Inr out"
  shows "\<exists>r \<in> set out. fail_key r = k \<and> identity (fail_file r) = identity f \<and> fail_error r = msg \<and>
    fail_at r = t \<and> fail_attempts r = attempts k f s + 1"
proof -
  let ?s = "apply_op (OpFailed None t k f msg) s"
  have inv: "keyed fail_key fail_file (failed_files ?s)"
    using apply_op_inv [OF assms(1)] by (simp add: ledger_inv_def del: apply_op.simps)
  obtain r where r: "map_of (inner (failed_files ?s) (state_key k)) (identity f) = Some r"
    "fail_error r = msg" "fail_at r = t" "fail_attempts r = attempts k f s + 1"
    by (auto simp: attempts_def mem_defs inner_put_inner update_conv' split: option.split)
  from map_of_SomeD [OF r(1)] have m: "(identity f, r) \<in> set (inner (failed_files ?s) (state_key k))" .
  from keyed_inner [OF inv m] have k: "fail_key r = k" "identity (fail_file r) = identity f" by simp_all
  have "r \<in> set (concat (map (\<lambda>(ck, j). map snd j) (failed_files ?s)))"
    using inner_mem [OF inv m] m by (rule nested_mem)
  with k(1) have "r \<in> set out" unfolding set_list_failures [OF assms(2)] by blast
  with r k show ?thesis by blast
qed

lemma mark_completed_retires:
  assumes "mem_status_of k s \<noteq> None"
  shows "list_all (\<lambda>(fid, r). f_path (fail_file r) \<noteq> f_path f)
      (inner (failed_files (apply_op (OpCompleted None t k f n) s)) (state_key k))"
  using assms by (auto simp: mem_status_of_def mem_defs inner_def map_of_map_entry list_all_iff split: option.split)

end
