(* ===== verification/LedgerFile.thy ===== *)
theory LedgerFile
  imports LedgerLaws GoText
begin

text \<open>
  The persistent ledger of app/state/state.go: what a snapshot keeps, the migration at load, and
  FileState, which writes a snapshot after every mutation.
\<close>

section \<open>A snapshot restores the ledger\<close>

lemma fold_update_other:
  "\<forall>x \<in> set xs. kf x \<noteq> k \<Longrightarrow> map_of (fold (\<lambda>x. AList.update (kf x) (vf x)) xs m) k = map_of m k"
  by (induction xs arbitrary: m) (auto simp: update_conv')

lemma fold_update_in:
  "distinct (map kf xs) \<Longrightarrow> x \<in> set xs \<Longrightarrow>
     map_of (fold (\<lambda>x. AList.update (kf x) (vf x)) xs m) (kf x) = Some (vf x)"
proof (induction xs arbitrary: m)
  case (Cons a xs)
  show ?case
  proof (cases "x = a")
    case True
    from Cons.prems(1) have "kf a \<notin> kf ` set xs" by simp
    with True have "\<forall>y \<in> set xs. kf y \<noteq> kf x" by (metis imageI)
    with True show ?thesis by (simp add: fold_update_other update_conv')
  next
    case False
    with Cons show ?thesis by simp
  qed
qed simp

lemma fold_update_wf: "wf_map m \<Longrightarrow> wf_map (fold (\<lambda>x. AList.update (kf x) (vf x)) xs m)"
  by (induction xs arbitrary: m) (auto intro: distinct_update)

lemma fold_put_inner_other:
  "\<forall>x \<in> set xs. (kf x, nf x) \<noteq> (ck, fid) \<Longrightarrow>
     map_of (inner (fold (\<lambda>x. put_inner (kf x) (nf x) (vf x)) xs m) ck) fid = map_of (inner m ck) fid"
  by (induction xs arbitrary: m) (auto simp: inner_put_inner update_conv')

lemma fold_put_inner_in:
  "distinct (map (\<lambda>x. (kf x, nf x)) xs) \<Longrightarrow> x \<in> set xs \<Longrightarrow>
     map_of (inner (fold (\<lambda>x. put_inner (kf x) (nf x) (vf x)) xs m) (kf x)) (nf x) = Some (vf x)"
proof (induction xs arbitrary: m)
  case (Cons a xs)
  show ?case
  proof (cases "x = a")
    case True
    from Cons.prems(1) have "(kf a, nf a) \<notin> (\<lambda>x. (kf x, nf x)) ` set xs" by simp
    with True have "\<forall>y \<in> set xs. (kf y, nf y) \<noteq> (kf x, nf x)" by (metis (no_types, lifting) imageI)
    with True show ?thesis by (simp add: fold_put_inner_other inner_put_inner update_conv')
  next
    case False
    with Cons show ?thesis by simp
  qed
qed simp

lemma fold_put_inner_keyed:
  "keyed kf ff m \<Longrightarrow>
     keyed kf ff (fold (\<lambda>x. put_inner (state_key (kf (of_j x))) (identity (ff (of_j x))) (of_j x)) xs m)"
  by (induction xs arbitrary: m) (simp_all add: keyed_put_inner)

definition flat :: "(string \<times> (string \<times> 'a) list) list \<Rightarrow> 'a list" where
  "flat m = concat (map (\<lambda>(ck, i). map snd i) m)"

lemma flat_pairs_distinct:
  "keyed kf ff m \<Longrightarrow> distinct (map (\<lambda>r. (state_key (kf r), identity (ff r))) (flat m))"
proof (induction m)
  case (Cons p m)
  obtain ck i where p: "p = (ck, i)" by (cases p)
  have i: "wf_map i" and ir: "\<And>fid r. (fid, r) \<in> set i \<Longrightarrow> fid = identity (ff r) \<and> ck = state_key (kf r)"
    and m: "keyed kf ff m" and ck: "ck \<notin> fst ` set m"
    using Cons.prems unfolding p keyed_def list_all_iff by auto
  let ?pair = "\<lambda>r. (state_key (kf r), identity (ff r))"
  have "map ?pair (map snd i) = map (\<lambda>fid. (ck, fid)) (map fst i)"
    using ir by auto
  then have e: "map ?pair (flat (p # m)) = map (\<lambda>fid. (ck, fid)) (map fst i) @ map ?pair (flat m)"
    by (simp add: p flat_def)
  have d: "distinct (map (\<lambda>fid. (ck, fid)) (map fst i))"
    using i by (simp only: distinct_map [of "\<lambda>fid. (ck, fid)"] inj_on_def) simp
  have ne: "state_key (kf r) \<noteq> ck" if "r \<in> set (flat m)" for r
  proof -
    from that obtain ck' j fid where "(ck', j) \<in> set m" "(fid, r) \<in> set j" by (auto simp: flat_def)
    with keyedD(2) [OF m this] ck show ?thesis by (auto simp: image_iff)
  qed
  then have "set (map (\<lambda>fid. (ck, fid)) (map fst i)) \<inter> set (map ?pair (flat m)) = {}"
    by (force simp del: state_key_inject)
  then show ?case unfolding e distinct_append using Cons.IH [OF m] d by blast
qed (simp add: flat_def)

lemma flat_inner:
  assumes "keyed kf ff m"
  shows "map_of (inner m ck) fid = Some r \<longleftrightarrow> r \<in> set (flat m) \<and> ck = state_key (kf r) \<and> fid = identity (ff r)"
proof
  assume "map_of (inner m ck) fid = Some r"
  then have r: "(fid, r) \<in> set (inner m ck)" by (rule map_of_SomeD)
  with inner_mem [OF assms r] keyed_inner [OF assms r]
  show "r \<in> set (flat m) \<and> ck = state_key (kf r) \<and> fid = identity (ff r)"
    using nested_mem unfolding flat_def by fast
next
  assume a: "r \<in> set (flat m) \<and> ck = state_key (kf r) \<and> fid = identity (ff r)"
  then obtain ck' i fid' where i: "(ck', i) \<in> set m" "(fid', r) \<in> set i" by (auto simp: flat_def)
  with keyedD(2) [OF assms i] a have e: "ck' = ck" "fid' = fid" by auto
  have "inner m ck = i" using i(1) e assms by (simp add: inner_def keyed_def)
  with i(2) e keyedD(1) [OF assms i(1)] show "map_of (inner m ck) fid = Some r" by simp
qed

text \<open>Restoring, in any order, what was written for each record gives the same nested map.\<close>

lemma restore_nested:
  assumes keyed: "keyed kf ff m" and perm: "mset js = mset (map to_j (flat m))"
    and rev_j: "\<And>r. r \<in> set (flat m) \<Longrightarrow> of_j (to_j r) = r"
    and g: "g = fold (\<lambda>j. put_inner (state_key (kf (of_j j))) (identity (ff (of_j j))) (of_j j)) js []"
  shows "map_of (inner g ck) = map_of (inner m ck)"
proof
  fix fid
  let ?pair = "\<lambda>j. (state_key (kf (of_j j)), identity (ff (of_j j)))"
  have set: "set js = to_j ` set (flat m)" using perm by (metis mset_eq_setD set_map)
  have "mset (map ?pair js) = mset (map ?pair (map to_j (flat m)))" using perm by (simp only: mset_map)
  also have "map ?pair (map to_j (flat m)) = map (\<lambda>r. (state_key (kf r), identity (ff r))) (flat m)"
    using rev_j by simp
  finally have dist: "distinct (map ?pair js)"
    using flat_pairs_distinct [OF keyed] mset_eq_imp_distinct_iff by blast
  show "map_of (inner g ck) fid = map_of (inner m ck) fid"
  proof (cases "map_of (inner m ck) fid")
    case (Some r)
    then have r: "r \<in> set (flat m)" "ck = state_key (kf r)" "fid = identity (ff r)"
      using flat_inner [OF keyed] by auto
    then have "to_j r \<in> set js" unfolding set by blast
    from fold_put_inner_in [OF dist this, of of_j "[]"] show ?thesis
      using Some r rev_j [OF r(1)] by (simp add: g)
  next
    case None
    have "\<forall>j \<in> set js. ?pair j \<noteq> (ck, fid)"
    proof
      fix j assume "j \<in> set js"
      then obtain r where r: "r \<in> set (flat m)" "j = to_j r" unfolding set by blast
      with rev_j flat_inner [OF keyed, of ck fid r] None show "?pair j \<noteq> (ck, fid)" by auto
    qed
    from fold_put_inner_other [OF this, of of_j "[]"] None show ?thesis
      by (simp add: g inner_def [of "[]"])
  qed
qed

text \<open>The file's source is the key's: the snapshot keeps one of the two.\<close>

definition sources_agree :: "ledger \<Rightarrow> bool" where
  "sources_agree s \<longleftrightarrow>
     list_all (\<lambda>r. f_source (done_file r) = k_source (done_key r)) (flat (files s)) \<and>
     list_all (\<lambda>r. f_source (fail_file r) = k_source (fail_key r)) (flat (failed_files s))"

lemma collection_json_back: "collection_of_json (collection_to_json r) = r"
  by (simp add: collection_of_json_def collection_to_json_def)

lemma file_json_back: "f_source (done_file r) = k_source (done_key r) \<Longrightarrow> file_of_json (file_to_json r) = r"
  by (simp add: file_of_json_def file_to_json_def)

lemma failed_json_back: "f_source (fail_file r) = k_source (fail_key r) \<Longrightarrow> failed_of_json (failed_to_json r) = r"
  by (simp add: failed_of_json_def failed_to_json_def)

lemma restored_collections:
  assumes "ledger_inv s"
  shows "map_of (collections (restore (snapshot s) s0)) = map_of (collections s)"
proof
  fix ck
  let ?key = "\<lambda>c. state_key (mk_key (cj_source c) (cj_date c))"
  define js where "js = snap_collections (snapshot s)"
  have key: "?key (collection_to_json r) = state_key (rec_key r)" for r by (simp add: collection_to_json_def)
  have set: "set js = collection_to_json ` snd ` set (collections s)"
    by (auto simp: js_def snapshot_def image_iff split_beta)
  have "map state_key (map rec_key (map snd (collections s))) = map fst (collections s)"
    using assms by (auto simp: ledger_inv_def list_all_iff)
  moreover have "mset (map ?key js) = mset (map state_key (map rec_key (map snd (collections s))))"
    by (simp add: js_def snapshot_def split_beta key image_mset.compositionality comp_def)
  ultimately have dist: "distinct (map ?key js)"
    using assms unfolding ledger_inv_def by (metis mset_eq_imp_distinct_iff)
  have c: "collections (restore (snapshot s) s0) = fold (\<lambda>c. AList.update (?key c) (collection_of_json c)) js []"
    by (simp add: restore_def js_def)
  show "map_of (collections (restore (snapshot s) s0)) ck = map_of (collections s) ck"
  proof (cases "map_of (collections s) ck")
    case (Some r)
    then have "collection_to_json r \<in> set js" unfolding set by (force dest: map_of_SomeD)
    from fold_update_in [OF dist this, of collection_of_json "[]"] show ?thesis
      using Some inv_lookup [OF assms Some] by (simp add: c key collection_json_back)
  next
    case None
    have "\<forall>j \<in> set js. ?key j \<noteq> ck"
    proof
      fix j assume "j \<in> set js"
      then obtain r where r: "r \<in> set (map snd (collections s))" "j = collection_to_json r" unfolding set by auto
      with collection_of_key [OF assms, of r] None show "?key j \<noteq> ck" by (auto simp: key)
    qed
    from fold_update_other [OF this, of collection_of_json "[]"] None show ?thesis by (simp add: c)
  qed
qed

lemma flat_map_json: "mset (concat (map (\<lambda>(ck, m). map (\<lambda>(i, r). to_j r) m) m)) = mset (map to_j (flat m))"
  by (induction m) (auto simp: flat_def split_beta image_mset.compositionality comp_def)

lemma restored_files:
  assumes "ledger_inv s" "sources_agree s"
  shows "map_of (inner (files (restore (snapshot s) s0)) ck) = map_of (inner (files s) ck)"
    and "map_of (inner (failed_files (restore (snapshot s) s0)) ck) = map_of (inner (failed_files s) ck)"
proof -
  have k: "keyed done_key done_file (files s)" "keyed fail_key fail_file (failed_files s)"
    using assms(1) by (simp_all add: ledger_inv_def)
  have f: "mset (snap_files (snapshot s)) = mset (map file_to_json (flat (files s)))"
    and x: "mset (snap_failed (snapshot s)) = mset (map failed_to_json (flat (failed_files s)))"
    using flat_map_json by (simp_all add: snapshot_def)
  have "r \<in> set (flat (files s)) \<Longrightarrow> file_of_json (file_to_json r) = r" for r
    using assms(2) by (auto simp: sources_agree_def list_all_iff file_json_back)
  from restore_nested [OF k(1) f this]
  show "map_of (inner (files (restore (snapshot s) s0)) ck) = map_of (inner (files s) ck)"
    by (simp add: restore_def file_of_json_def)
  have "r \<in> set (flat (failed_files s)) \<Longrightarrow> failed_of_json (failed_to_json r) = r" for r
    using assms(2) by (auto simp: sources_agree_def list_all_iff failed_json_back)
  from restore_nested [OF k(2) x this]
  show "map_of (inner (failed_files (restore (snapshot s) s0)) ck) = map_of (inner (failed_files s) ck)"
    by (simp add: restore_def failed_of_json_def)
qed

lemma snapshot_restores:
  assumes "ledger_inv s" "sources_agree s" "append_mode s0 = append_mode s"
  shows "same_contents (restore (snapshot s) s0) s"
proof -
  have "append_mode (restore (snapshot s) s0) = append_mode s" using assms(3) by (simp add: restore_def)
  with assms show ?thesis by (simp add: same_contents_def restored_collections restored_files)
qed

section \<open>Migration\<close>

text \<open>One record's migration touches its own key only, so the loop is a map over the keys.\<close>

definition migrated :: "status \<Rightarrow> status option" where
  "migrated st = (if st = StatusSkipped then None else if st = StatusPending then Some StatusFailed else Some st)"

lemma migrate_record_other:
  assumes "migrate_record (ck, r) (s, n, m) = (s', n', m')" "k \<noteq> ck"
  shows "map_of (collections s') k = map_of (collections s) k" "inner (files s') k = inner (files s) k"
    "inner (failed_files s') k = inner (failed_files s) k"
  using assms by (auto simp: migrate_record_def update_conv' split: if_splits)

lemma migrate_record_inv:
  assumes "migrate_record (ck, r) (s, n, m) = (s', n', m')" "ledger_inv s" "ck = state_key (rec_key r)"
  shows "ledger_inv s'"
proof -
  have d: "ledger_inv (s\<lparr>collections := AList.delete ck (collections s), files := AList.delete ck (files s),
      failed_files := AList.delete ck (failed_files s)\<rparr>)"
    using drop_inv [OF assms(2), of None "rec_key r"] by (simp add: mem_drop_def Let_def assms(3))
  have u: "ledger_inv (s\<lparr>collections := AList.update ck (r\<lparr>rec_status := StatusFailed\<rparr>) (collections s)\<rparr>)"
    by (rule inv_put_collection [OF assms(2)]) (simp add: assms(3))
  have x: "ledger_inv (s\<lparr>failed_files := AList.delete ck (failed_files s)\<rparr>)"
    using inv_delete_failed [where s = s and cs = "collections s"] assms(2) by simp
  show ?thesis using assms(1,2) d u x by (auto simp: migrate_record_def split: if_splits)
qed

text \<open>What the record at a key becomes.\<close>

definition after_migration :: "ledger \<Rightarrow> ledger \<Rightarrow> string \<Rightarrow> bool" where
  "after_migration s s' k \<longleftrightarrow>
     (case map_of (collections s) k of
        None \<Rightarrow> map_of (collections s') k = None \<and> inner (failed_files s') k = inner (failed_files s) k \<and>
          inner (files s') k = inner (files s) k
      | Some r \<Rightarrow>
          (case migrated (rec_status r) of
             None \<Rightarrow> map_of (collections s') k = None \<and> inner (files s') k = [] \<and> inner (failed_files s') k = []
           | Some st \<Rightarrow> map_of (collections s') k = Some (r\<lparr>rec_status := st\<rparr>) \<and>
               inner (files s') k = inner (files s) k \<and>
               inner (failed_files s') k = (if st = StatusSucceeded then [] else inner (failed_files s) k)))"

lemma after_migration_cong:
  assumes "map_of (collections s1) k = map_of (collections s) k" "inner (files s1) k = inner (files s) k"
    "inner (failed_files s1) k = inner (failed_files s) k"
    "map_of (collections s2) k = map_of (collections s') k" "inner (files s2) k = inner (files s') k"
    "inner (failed_files s2) k = inner (failed_files s') k"
  shows "after_migration s1 s2 k = after_migration s s' k"
  unfolding after_migration_def assms ..

lemma migrate_record_at:
  assumes "migrate_record (k, r) (s, n, m) = (s', n', m')" "map_of (collections s) k = Some r"
  shows "after_migration s s' k"
  using assms by (auto simp: migrate_record_def after_migration_def migrated_def update_conv' split: if_splits)

lemma migrate_fold:
  assumes "fold migrate_record rs (s, n, m) = (s', n', m')" "wf_map rs" "ledger_inv s"
    "\<forall>(k, r) \<in> set rs. map_of (collections s) k = Some r"
  shows "ledger_inv s' \<and> append_mode s' = append_mode s \<and>
    (\<forall>k. if k \<in> set (keys_of rs) then after_migration s s' k
         else map_of (collections s') k = map_of (collections s) k \<and> inner (files s') k = inner (files s) k \<and>
           inner (failed_files s') k = inner (failed_files s) k)"
  using assms
proof (induction rs arbitrary: s n m)
  case (Cons p rs)
  obtain k r where p: "p = (k, r)" by (cases p)
  obtain s1 n1 m1 where one: "migrate_record (k, r) (s, n, m) = (s1, n1, m1)" by (metis prod_cases3)
  have kr: "map_of (collections s) k = Some r" using Cons.prems(4) by (simp add: p)
  note other = migrate_record_other [OF one]
  have k: "k \<notin> set (keys_of rs)" using Cons.prems(2) by (simp add: p)
  have "ledger_inv s1" using migrate_record_inv [OF one Cons.prems(3)] inv_lookup [OF Cons.prems(3) kr] by simp
  moreover have "\<forall>(k', r') \<in> set rs. map_of (collections s1) k' = Some r'"
  proof safe
    fix k' r' assume "(k', r') \<in> set rs"
    with k Cons.prems(4) show "map_of (collections s1) k' = Some r'"
      using other(1) [of k'] by (force simp: p)
  qed
  moreover have "fold migrate_record rs (s1, n1, m1) = (s', n', m')" using Cons.prems(1) by (simp add: p one)
  ultimately have IH: "ledger_inv s' \<and> append_mode s' = append_mode s1 \<and>
    (\<forall>k. if k \<in> set (keys_of rs) then after_migration s1 s' k
         else map_of (collections s') k = map_of (collections s1) k \<and> inner (files s') k = inner (files s1) k \<and>
           inner (failed_files s') k = inner (failed_files s1) k)"
    using Cons.IH [of s1 n1 m1] Cons.prems(2) by (simp add: p)
  have "append_mode s1 = append_mode s" using one by (auto simp: migrate_record_def split: if_splits)
  moreover have "after_migration s s' k"
    using migrate_record_at [OF one kr] IH k after_migration_cong [of s k s s' s1] by auto
  moreover have "after_migration s s' k'" if k': "k' \<in> set (keys_of rs)" for k'
  proof -
    have "k' \<noteq> k" using k k' by blast
    from after_migration_cong [OF other [OF this] refl refl refl, of s']
      spec [OF conjunct2 [OF conjunct2 [OF IH]], of k'] k' show ?thesis by simp
  qed
  moreover have "map_of (collections s') k' = map_of (collections s) k' \<and> inner (files s') k' = inner (files s) k' \<and>
           inner (failed_files s') k' = inner (failed_files s) k'" if "k' \<notin> set (keys_of rs)" "k' \<noteq> k" for k'
    using IH that other [of k'] by simp
  ultimately show ?case using IH by (simp add: p)
qed simp

lemma migration_spec:
  assumes "ledger_inv s" "migrate_pre_instance s = (s', purged, converted)"
  shows "ledger_inv s'" "append_mode s' = append_mode s" "after_migration s s' k"
proof -
  have "\<forall>(k, r) \<in> set (collections s). map_of (collections s) k = Some r"
    using assms(1) by (auto simp: ledger_inv_def)
  from migrate_fold [OF assms(2) [unfolded migrate_pre_instance_def] _ assms(1) this] assms(1)
  have m: "ledger_inv s' \<and> append_mode s' = append_mode s \<and>
    (\<forall>k. if k \<in> set (keys_of (collections s)) then after_migration s s' k
         else map_of (collections s') k = map_of (collections s) k \<and> inner (files s') k = inner (files s) k \<and>
           inner (failed_files s') k = inner (failed_files s) k)"
    by (simp add: ledger_inv_def)
  then show "ledger_inv s'" "append_mode s' = append_mode s" by simp_all
  show "after_migration s s' k"
  proof (cases "k \<in> set (keys_of (collections s))")
    case False
    then have "map_of (collections s) k = None" by (simp add: map_of_eq_None_iff)
    with False m show ?thesis by (simp add: after_migration_def)
  qed (use m in simp)
qed

section \<open>FileState\<close>

text \<open>
  The file holds what a reader of its JSON text finds: encoding/json writes every string as valid
  UTF-8, bytes that are not becoming the replacement character.
\<close>

definition encode_snapshot :: "memory_snapshot \<Rightarrow> memory_snapshot" where
  "encode_snapshot sn =
     \<lparr>snap_collections =
        map (\<lambda>c. c\<lparr>cj_source := valid_text (cj_source c), cj_note := valid_text (cj_note c)\<rparr>) (snap_collections sn),
      snap_files =
        map (\<lambda>f. f\<lparr>fj_source := valid_text (fj_source f), fj_path := valid_text (fj_path f),
                 fj_name := valid_text (fj_name f), fj_hash := valid_text (fj_hash f)\<rparr>) (snap_files sn),
      snap_failed =
        map (\<lambda>f. f\<lparr>xj_source := valid_text (xj_source f), xj_path := valid_text (xj_path f),
                 xj_name := valid_text (xj_name f), xj_hash := valid_text (xj_hash f),
                 xj_error := valid_text (xj_error f)\<rparr>) (snap_failed sn)\<rparr>"

text \<open>
  The file system answers each save with an error or not; \<open>os.Rename\<close> makes the new snapshot
  appear as a whole, so a failed save leaves the old file. \<open>SetAppendMode\<close> ignores the answer.
\<close>

record file_state =
  mem :: ledger
  disk :: "memory_snapshot option"

definition save :: "err option \<Rightarrow> file_state \<Rightarrow> unit res \<times> file_state" where
  "save io fs =
     (case io of Some e \<Rightarrow> (Inl e, fs)
      | None \<Rightarrow> (Inr (), fs\<lparr>disk := Some (encode_snapshot (snapshot (mem fs)))\<rparr>))"

definition fs_begin ::
  "err option \<Rightarrow> ctx \<Rightarrow> time \<Rightarrow> collection_key \<Rightarrow> duration \<Rightarrow> file_state \<Rightarrow> (bool \<times> err option) \<times> file_state" where
  "fs_begin io c now key lease fs =
     (let (r, m) = mem_begin c now key lease (mem fs); fs1 = fs\<lparr>mem := m\<rparr>
      in case r of
           Inl e \<Rightarrow> ((False, Some e), fs1)
         | Inr False \<Rightarrow> ((False, None), fs1)
         | Inr True \<Rightarrow> (case save io fs1 of (Inl e, fs2) \<Rightarrow> ((True, Some e), fs2)
                                      | (Inr _, fs2) \<Rightarrow> ((True, None), fs2)))"

definition then_save :: "err option \<Rightarrow> unit res \<times> ledger \<Rightarrow> file_state \<Rightarrow> unit res \<times> file_state" where
  "then_save io rm fs =
     (case rm of (Inl e, m) \<Rightarrow> (Inl e, fs\<lparr>mem := m\<rparr>) | (Inr _, m) \<Rightarrow> save io (fs\<lparr>mem := m\<rparr>))"

definition fs_end ::
  "err option \<Rightarrow> ctx \<Rightarrow> time \<Rightarrow> time \<Rightarrow> collection_key \<Rightarrow> status \<Rightarrow> string \<Rightarrow> file_state \<Rightarrow> unit res \<times> file_state" where
  "fs_end io c now1 now2 key st note fs = then_save io (mem_end c now1 now2 key st note (mem fs)) fs"

definition fs_drop :: "err option \<Rightarrow> ctx \<Rightarrow> collection_key \<Rightarrow> file_state \<Rightarrow> unit res \<times> file_state" where
  "fs_drop io c key fs = then_save io (mem_drop c key (mem fs)) fs"

definition fs_mark_completed ::
  "err option \<Rightarrow> ctx \<Rightarrow> time \<Rightarrow> collection_key \<Rightarrow> file_identity \<Rightarrow> nat \<Rightarrow> file_state \<Rightarrow> unit res \<times> file_state" where
  "fs_mark_completed io c now key file n fs = then_save io (mem_mark_completed c now key file n (mem fs)) fs"

definition fs_mark_failed ::
  "err option \<Rightarrow> ctx \<Rightarrow> time \<Rightarrow> collection_key \<Rightarrow> file_identity \<Rightarrow> string \<Rightarrow> file_state \<Rightarrow> unit res \<times> file_state" where
  "fs_mark_failed io c now key file msg fs = then_save io (mem_mark_failed c now key file msg (mem fs)) fs"

definition fs_set_append_mode :: "err option \<Rightarrow> file_state \<Rightarrow> file_state" where
  "fs_set_append_mode io fs = snd (save io (fs\<lparr>mem := set_append_mode (mem fs)\<rparr>))"

fun fs_apply :: "err option \<Rightarrow> ledger_op \<Rightarrow> file_state \<Rightarrow> file_state" where
  "fs_apply io (OpBegin c now k lease) fs = snd (fs_begin io c now k lease fs)"
| "fs_apply io (OpEnd c now1 now2 k st note) fs = snd (fs_end io c now1 now2 k st note fs)"
| "fs_apply io (OpDrop c k) fs = snd (fs_drop io c k fs)"
| "fs_apply io (OpCompleted c now k f n) fs = snd (fs_mark_completed io c now k f n fs)"
| "fs_apply io (OpFailed c now k f msg) fs = snd (fs_mark_failed io c now k f msg fs)"
| "fs_apply io OpAppendMode fs = fs_set_append_mode io fs"

text \<open>
  Loading: the file is missing, unreadable, or holds a snapshot. A date is written by
  \<open>MarshalText\<close> and read by \<open>UnmarshalText\<close>; a date that does not parse makes the load fail.
\<close>

datatype disk_file = Missing | Unreadable err | Holds memory_snapshot

definition reread_date :: "collection_date \<Rightarrow> collection_date option" where
  "reread_date d = unmarshal_date (date_string d)"

fun traverse :: "('a \<Rightarrow> 'b option) \<Rightarrow> 'a list \<Rightarrow> 'b list option" where
  "traverse f [] = Some []"
| "traverse f (x # xs) =
     (case f x of None \<Rightarrow> None | Some y \<Rightarrow> map_option (\<lambda>ys. y # ys) (traverse f xs))"

definition decode_snapshot :: "memory_snapshot \<Rightarrow> memory_snapshot option" where
  "decode_snapshot sn =
     (case (traverse (\<lambda>c. map_option (\<lambda>d. c\<lparr>cj_date := d\<rparr>) (reread_date (cj_date c))) (snap_collections sn),
            traverse (\<lambda>c. map_option (\<lambda>d. c\<lparr>fj_date := d\<rparr>) (reread_date (fj_date c))) (snap_files sn),
            traverse (\<lambda>c. map_option (\<lambda>d. c\<lparr>xj_date := d\<rparr>) (reread_date (xj_date c))) (snap_failed sn)) of
        (Some cs, Some fs, Some xs) \<Rightarrow> Some \<lparr>snap_collections = cs, snap_files = fs, snap_failed = xs\<rparr>
      | _ \<Rightarrow> None)"

definition new_file :: "err option \<Rightarrow> string \<Rightarrow> disk_file \<Rightarrow> file_state res" where
  "new_file io path file =
     (if path = '''' then Inl (Wrapped ''state file path is empty'' [])
      else case file of
        Missing \<Rightarrow> Inr \<lparr>mem = new_memory, disk = None\<rparr>
      | Unreadable e \<Rightarrow>
          Inl (Wrapped (''state file '' @ go_quote path @ '': '' @ err_text e) [e])
      | Holds sn \<Rightarrow>
          (case decode_snapshot sn of
             None \<Rightarrow> Inl (Wrapped (''state file '' @ go_quote path @ '': bad date'') [])
           | Some sn' \<Rightarrow>
               (let (m, purged, converted) = migrate_pre_instance (restore sn' new_memory);
                    fs = \<lparr>mem = m, disk = Some sn\<rparr>
                in if purged + converted > 0
                   then (case save io fs of
                           (Inl e, _) \<Rightarrow> Inl (Wrapped (''state file '' @ go_quote path @ '': compact: '' @ err_text e) [e])
                         | (Inr _, fs1) \<Rightarrow> Inr fs1)
                   else Inr fs)))"

definition path_allowed :: "string \<Rightarrow> bool" where
  "path_allowed path \<longleftrightarrow> path \<noteq> '''' \<and> char_of (0 :: nat) \<notin> set path"

lemma mem_fs_apply [simp]: "mem (fs_apply io op fs) = apply_op op (mem fs)"
  by (cases op; cases io)
    (auto simp: fs_begin_def fs_end_def fs_drop_def fs_mark_completed_def fs_mark_failed_def
      fs_set_append_mode_def then_save_def save_def Let_def split: prod.splits sum.splits bool.splits)

interpretation filed: ledger_contract "fs_apply io" "\<lambda>fs. ledger_inv (mem fs)"
    "\<lambda>k fs. mem_status_of k (mem fs)" "\<lambda>k f fs. mem_finished k f (mem fs)" for io
  by unfold_locales
    (simp_all add: memory.inv_step memory.finished_keeps memory.finished_marks memory.status_frame
      del: apply_op.simps fs_apply.simps)

section \<open>Restarting\<close>

definition dated :: "collection_date \<Rightarrow> bool" where
  "dated d \<longleftrightarrow> reread_date d = Some d"

lemma datedI:
  assumes "\<not> is_zero_date d" "0 \<le> fst (civil_date d)" "fst (civil_date d) \<le> 9999"
  shows "dated d"
  using assms unmarshal_date_string [of d] unfolding dated_def reread_date_def
  by (cases "civil_date d") auto

definition dates_ok :: "ledger \<Rightarrow> bool" where
  "dates_ok s \<longleftrightarrow>
     list_all (\<lambda>(ck, r). dated (k_date (rec_key r))) (collections s) \<and>
     list_all (\<lambda>r. dated (k_date (done_key r))) (flat (files s)) \<and>
     list_all (\<lambda>r. dated (k_date (fail_key r))) (flat (failed_files s))"

lemma traverse_same: "\<forall>x \<in> set xs. f x = Some x \<Longrightarrow> traverse f xs = Some xs"
  by (induction xs) auto

text \<open>The texts of a ledger survive JSON.\<close>

definition texts_ok :: "ledger \<Rightarrow> bool" where
  "texts_ok s \<longleftrightarrow>
     list_all (\<lambda>(ck, r). valid_string (k_source (rec_key r)) \<and> valid_string (rec_note r)) (collections s) \<and>
     list_all (\<lambda>r. list_all valid_string [k_source (done_key r), f_path (done_file r), f_name (done_file r), f_hash (done_file r)])
       (flat (files s)) \<and>
     list_all (\<lambda>r. list_all valid_string [k_source (fail_key r), f_path (fail_file r), f_name (fail_file r), f_hash (fail_file r),
         fail_error r]) (flat (failed_files s))"

lemma encode_own_snapshot:
  assumes "texts_ok s"
  shows "encode_snapshot (snapshot s) = snapshot s"
proof -
  have f: "set (snap_files (snapshot s)) = file_to_json ` set (flat (files s))"
    and x: "set (snap_failed (snapshot s)) = failed_to_json ` set (flat (failed_files s))"
    by (force simp: snapshot_def flat_def)+
  have c: "set (snap_collections (snapshot s)) = (\<lambda>(ck, r). collection_to_json r) ` set (collections s)"
    by (simp add: snapshot_def)
  have "map (\<lambda>c. c\<lparr>cj_source := valid_text (cj_source c), cj_note := valid_text (cj_note c)\<rparr>) (snap_collections (snapshot s)) =
      snap_collections (snapshot s)"
    using assms by (intro map_idI) (auto simp: c texts_ok_def list_all_iff collection_to_json_def valid_text_same)
  moreover have "map (\<lambda>f. f\<lparr>fj_source := valid_text (fj_source f), fj_path := valid_text (fj_path f),
        fj_name := valid_text (fj_name f), fj_hash := valid_text (fj_hash f)\<rparr>) (snap_files (snapshot s)) = snap_files (snapshot s)"
    using assms by (intro map_idI) (auto simp: f texts_ok_def list_all_iff file_to_json_def valid_text_same)
  moreover have "map (\<lambda>f. f\<lparr>xj_source := valid_text (xj_source f), xj_path := valid_text (xj_path f),
        xj_name := valid_text (xj_name f), xj_hash := valid_text (xj_hash f),
        xj_error := valid_text (xj_error f)\<rparr>) (snap_failed (snapshot s)) = snap_failed (snapshot s)"
    using assms by (intro map_idI) (auto simp: x texts_ok_def list_all_iff failed_to_json_def valid_text_same)
  ultimately show ?thesis by (simp add: encode_snapshot_def)
qed

lemma decode_own_snapshot:
  assumes "dates_ok s"
  shows "decode_snapshot (snapshot s) = Some (snapshot s)"
proof -
  have f: "set (snap_files (snapshot s)) = file_to_json ` set (flat (files s))"
    and x: "set (snap_failed (snapshot s)) = failed_to_json ` set (flat (failed_files s))"
    by (force simp: snapshot_def flat_def)+
  have c: "set (snap_collections (snapshot s)) = (\<lambda>(ck, r). collection_to_json r) ` set (collections s)"
    by (simp add: snapshot_def)
  have "traverse (\<lambda>c. map_option (\<lambda>d. c\<lparr>cj_date := d\<rparr>) (reread_date (cj_date c))) (snap_collections (snapshot s)) =
      Some (snap_collections (snapshot s))"
    using assms by (intro traverse_same)
      (auto simp: c dates_ok_def list_all_iff dated_def collection_to_json_def)
  moreover have "traverse (\<lambda>c. map_option (\<lambda>d. c\<lparr>fj_date := d\<rparr>) (reread_date (fj_date c))) (snap_files (snapshot s)) =
      Some (snap_files (snapshot s))"
    using assms by (intro traverse_same) (auto simp: f dates_ok_def list_all_iff dated_def file_to_json_def)
  moreover have "traverse (\<lambda>c. map_option (\<lambda>d. c\<lparr>xj_date := d\<rparr>) (reread_date (xj_date c))) (snap_failed (snapshot s)) =
      Some (snap_failed (snapshot s))"
    using assms by (intro traverse_same) (auto simp: x dates_ok_def list_all_iff dated_def failed_to_json_def)
  ultimately show ?thesis by (simp add: decode_snapshot_def)
qed

lemma restored_inv: "ledger_inv (restore (snapshot s) new_memory)" if inv: "ledger_inv s"
proof -
  let ?s = "restore (snapshot s) new_memory"
  have "wf_map (collections ?s)" by (simp add: restore_def fold_update_wf)
  moreover have "\<forall>(ck, r) \<in> set (collections ?s). ck = state_key (rec_key r)"
  proof safe
    fix ck r assume "(ck, r) \<in> set (collections ?s)"
    from map_of_is_SomeI [OF \<open>wf_map (collections ?s)\<close> this]
    have "map_of (collections s) ck = Some r" unfolding restored_collections [OF inv] .
    then show "ck = state_key (rec_key r)" by (rule inv_lookup [OF inv])
  qed
  moreover have "keyed done_key done_file (files ?s)"
    using fold_put_inner_keyed [of done_key done_file "[]" file_of_json]
    by (simp add: restore_def keyed_def [of _ _ "[]"] file_of_json_def [abs_def])
  moreover have "keyed fail_key fail_file (failed_files ?s)"
    using fold_put_inner_keyed [of fail_key fail_file "[]" failed_of_json]
    by (simp add: restore_def keyed_def [of _ _ "[]"] failed_of_json_def [abs_def])
  moreover have "fst ` set (files ?s) \<subseteq> fst ` set (collections ?s)"
  proof -
    have k: "keyed done_key done_file (files s)" using inv by (simp add: ledger_inv_def)
    have "fst ` set (fold (\<lambda>f. put_inner (kf f) (nf f) (vf f)) xs m) = kf ` set xs \<union> fst ` set m"
      for kf nf and vf :: "file_json \<Rightarrow> file_record" and xs m
      by (induction xs arbitrary: m) auto
    then have "fst ` set (files ?s) = (\<lambda>f. state_key (mk_key (fj_source f) (fj_date f))) ` set (snap_files (snapshot s))"
      by (simp add: restore_def)
    also have "set (snap_files (snapshot s)) = file_to_json ` set (flat (files s))"
      by (force simp: snapshot_def flat_def)
    finally have "fst ` set (files ?s) = (\<lambda>r. state_key (done_key r)) ` set (flat (files s))"
      by (simp add: image_image file_to_json_def)
    also have "\<dots> \<subseteq> fst ` set (files s)"
    proof
      fix ck assume "ck \<in> (\<lambda>r. state_key (done_key r)) ` set (flat (files s))"
      then obtain r where "r \<in> set (flat (files s))" "ck = state_key (done_key r)" by blast
      then have "map_of (inner (files s) ck) (identity (done_file r)) = Some r" using flat_inner [OF k] by blast
      from inner_mem [OF k map_of_SomeD [OF this]] show "ck \<in> fst ` set (files s)" by force
    qed
    also have "\<dots> \<subseteq> fst ` set (collections s)" using inv by (simp add: ledger_inv_def)
    also have "\<dots> = fst ` set (collections ?s)"
      using restored_collections [OF inv, of new_memory] by (metis dom_map_of_conv_image_fst)
    finally show ?thesis .
  qed
  ultimately show ?thesis by (simp add: ledger_inv_def list_all_iff)
qed

lemma same_finished:
  assumes "ledger_inv s" "ledger_inv s'" "same_contents s s'"
  shows "mem_finished k f s = mem_finished k f s'" "attempts k f s = attempts k f s'"
  using queries_same(5) [OF assms] assms(3) by (simp_all add: mem_finished_def attempts_def same_contents_def)

lemma migrated_queries:
  assumes "ledger_inv s" "ledger_inv s'" "\<And>k. after_migration s s' k"
  shows "mem_status_of k s' = Option.bind (mem_status_of k s) migrated"
    "mem_finished k f s' \<longleftrightarrow> mem_finished k f s \<and> mem_status_of k s \<noteq> Some StatusSkipped"
    "attempts k f s' =
      (if mem_status_of k s \<in> {Some StatusSucceeded, Some StatusSkipped} then 0 else attempts k f s)"
proof -
  note a = assms(3) [of "state_key k", unfolded after_migration_def]
  show "mem_status_of k s' = Option.bind (mem_status_of k s) migrated"
    using a by (auto simp: mem_status_of_def split: option.splits)
  show "mem_finished k f s' \<longleftrightarrow> mem_finished k f s \<and> mem_status_of k s \<noteq> Some StatusSkipped"
    using a unfolding mem_finished_iff [OF assms(1)] mem_finished_iff [OF assms(2)]
    by (auto simp: mem_status_of_def migrated_def split: option.splits if_splits)
  show "attempts k f s' =
      (if mem_status_of k s \<in> {Some StatusSucceeded, Some StatusSkipped} then 0 else attempts k f s)"
    using a by (auto simp: attempts_def mem_status_of_def migrated_def split: option.splits if_splits)
qed

lemma loaded_without_append:
  assumes "ledger_inv s" "sources_agree s" "\<not> append_mode s" "dates_ok s" "path \<noteq> ''''"
    "new_file io path (Holds (snapshot s)) = Inr fs"
  shows "ledger_inv (mem fs)"
    "mem_status_of k (mem fs) = Option.bind (mem_status_of k s) migrated"
    "mem_finished k f (mem fs) \<longleftrightarrow> mem_finished k f s \<and> mem_status_of k s \<noteq> Some StatusSkipped"
    "attempts k f (mem fs) =
      (if mem_status_of k s \<in> {Some StatusSucceeded, Some StatusSkipped} then 0 else attempts k f s)"
proof -
  let ?r = "restore (snapshot s) new_memory"
  obtain m p c where m: "migrate_pre_instance ?r = (m, p, c)" by (metis prod_cases3)
  have inv: "ledger_inv ?r" by (rule restored_inv [OF assms(1)])
  have "same_contents ?r s"
    using assms(1-3) by (intro snapshot_restores) (simp_all add: new_memory_def)
  note q = queries_same(4) [OF inv assms(1) this] same_finished [OF inv assms(1) this]
  have fs: "mem fs = m"
    using assms(5,6) m decode_own_snapshot [OF assms(4)]
    by (auto simp: new_file_def Let_def save_def split: if_splits option.splits)
  note spec = migration_spec [OF inv m]
  note mq = migrated_queries [OF inv spec(1) spec(3)]
  show "ledger_inv (mem fs)" using spec(1) by (simp add: fs)
  show "mem_status_of k (mem fs) = Option.bind (mem_status_of k s) migrated"
    using mq(1) [of k] q(1) [of k] by (simp add: fs)
  show "mem_finished k f (mem fs) \<longleftrightarrow> mem_finished k f s \<and> mem_status_of k s \<noteq> Some StatusSkipped"
    using mq(2) [of k f] q(1) [of k] q(2) [of k f] by (simp add: fs)
  show "attempts k f (mem fs) =
      (if mem_status_of k s \<in> {Some StatusSucceeded, Some StatusSkipped} then 0 else attempts k f s)"
    using mq(3) [of k f] q(1) [of k] q(3) [of k f] by (simp add: fs)
qed


text \<open>The append mode is no part of a snapshot or of an answer.\<close>

lemma loaded_ledger:
  assumes "ledger_inv s" "sources_agree s" "dates_ok s" "texts_ok s" "path \<noteq> ''''"
    "new_file io path (Holds (encode_snapshot (snapshot s))) = Inr fs"
  shows "ledger_inv (mem fs)"
    "mem_status_of k (mem fs) = Option.bind (mem_status_of k s) migrated"
    "mem_finished k f (mem fs) \<longleftrightarrow> mem_finished k f s \<and> mem_status_of k s \<noteq> Some StatusSkipped"
    "attempts k f (mem fs) =
      (if mem_status_of k s \<in> {Some StatusSucceeded, Some StatusSkipped} then 0 else attempts k f s)"
proof -
  let ?s = "s\<lparr>append_mode := False\<rparr>"
  have s: "ledger_inv ?s" "sources_agree ?s" "\<not> append_mode ?s" "dates_ok ?s"
    using assms(1-3) by (simp_all add: ledger_inv_def sources_agree_def dates_ok_def)
  have l: "new_file io path (Holds (snapshot ?s)) = Inr fs"
    using assms(6) by (simp add: encode_own_snapshot [OF assms(4)]) (simp add: snapshot_def)
  have q: "mem_status_of k ?s = mem_status_of k s" "mem_finished k f ?s = mem_finished k f s" "attempts k f ?s = attempts k f s"
    by (simp_all add: mem_status_of_def mem_finished_def mem_file_completed_def attempts_def Let_def)
  show "ledger_inv (mem fs)" by (rule loaded_without_append(1) [OF s assms(5) l])
  show "mem_status_of k (mem fs) = Option.bind (mem_status_of k s) migrated"
    using loaded_without_append(2) [OF s assms(5) l, of k] unfolding q .
  show "mem_finished k f (mem fs) \<longleftrightarrow> mem_finished k f s \<and> mem_status_of k s \<noteq> Some StatusSkipped"
    using loaded_without_append(3) [OF s assms(5) l, of k f] unfolding q .
  show "attempts k f (mem fs) =
      (if mem_status_of k s \<in> {Some StatusSucceeded, Some StatusSkipped} then 0 else attempts k f s)"
    using loaded_without_append(4) [OF s assms(5) l, of k f] unfolding q .
qed

end
