(* ===== verification/LedgerProps.thy ===== *)
theory LedgerProps
  imports LedgerFile
begin

text \<open>
  The properties of the ledger, with the concrete ledgers their witnesses run on.
\<close>

definition day_1 :: collection_date where "day_1 = CDate 738000"
definition day_2 :: collection_date where "day_2 = CDate 738001"

definition key_1 :: collection_key where "key_1 = mk_key ''line-1'' day_1"
definition key_2 :: collection_key where "key_2 = mk_key ''line-1'' day_2"

definition file_a :: file_identity where
  "file_a = \<lparr>f_source = ''line-1'', f_path = ''/in/a.csv'', f_name = ''a.csv'', f_size = 120,
             f_mtime = 63763200000000000000, f_hash = ''''\<rparr>"

definition file_b :: file_identity where
  "file_b = file_a\<lparr>f_path := ''/in/b.csv'', f_name := ''b.csv''\<rparr>"

lemmas sample_defs = day_1_def day_2_def key_1_def key_2_def file_a_def file_b_def

lemma key_samples [simp]: "key_1 \<noteq> key_2" "key_2 \<noteq> key_1"
  by (simp_all add: key_1_def key_2_def mk_key_def day_1_def day_2_def)

subsection \<open>Completed files\<close>

text \<open>C9. Once a file of a begun collection is marked completed, every later query finds it
completed, after any sequence of operations that does not drop its key.\<close>

theorem completed_file_stays:
  assumes "mem_status_of k (fold apply_op before new_memory) \<noteq> None"
    and "list_all (\<lambda>op. \<not> drops k op) after"
  shows "mem_file_completed None k f (fold apply_op (before @ OpCompleted None t k f n # after) new_memory) = Inr True"
proof -
  have "ledger_inv (fold apply_op before new_memory)" by (rule memory.inv_steps) simp
  from memory.marked_survives [OF this assms] show ?thesis by (simp add: mem_finished_def)
qed

theorem completed_file_stays_witness:
  "mem_file_completed None key_1 file_a
     (fold apply_op ([OpBegin None 5 key_1 10] @ OpCompleted None 6 key_1 file_a 3 #
        [OpFailed None 7 key_1 file_b ''locked'', OpEnd None 8 8 key_1 StatusFailed ''b.csv: locked'',
         OpBegin None 9 key_2 10, OpDrop None key_2]) new_memory) = Inr True"
  by (rule completed_file_stays)
    (simp_all add: mem_begin_def open_collection_def new_memory_def mem_status_of_def)

text \<open>C11. A collection that was begun is not begun a second time while its lease runs, whatever
happens to other keys; once it has succeeded it is begun again only in append mode, and its
failure ledger is empty.\<close>

theorem one_collector_per_lease:
  assumes "mem_begin None now k lease s = (Inr True, s1)"
    and "list_all (\<lambda>op. op_key op \<noteq> Some k) ops"
  shows "fst (mem_begin None now' k lease' (fold apply_op ops s1)) = Inr (\<not> time_sub now' now < lease') \<and>
    (let s2 = snd (mem_end None e1 e2 k StatusSucceeded note s1); s3 = fold apply_op ops s2
     in fst (mem_begin None now' k lease' s3) = Inr (append_mode s3) \<and>
        inner (failed_files s3) (state_key k) = [])"
proof -
  have "mem_status_of k s1 \<noteq> None" using begun_record [OF assms(1)] by (auto simp: mem_status_of_def)
  note closed = begin_after_success [OF this refl assms(2)]
  show ?thesis unfolding Let_def failed_frame_fold [OF assms(2)]
    using second_begin [OF assms] closed by blast
qed

theorem one_collector_per_lease_witness:
  "\<exists>s1. mem_begin None 5 key_1 10 new_memory = (Inr True, s1) \<and>
    fst (mem_begin None 9 key_1 10 (fold apply_op [OpBegin None 6 key_2 10] s1)) = Inr False"
proof -
  obtain s1 where s1: "mem_begin None 5 key_1 10 new_memory = (Inr True, s1)"
    by (simp add: mem_begin_def new_memory_def)
  have "list_all (\<lambda>op. op_key op \<noteq> Some key_1) [OpBegin None 6 key_2 10]" by simp
  from one_collector_per_lease [OF s1 this, of 9 10 0 0 "''''"] s1 show ?thesis
    by (simp add: time_sub_def max_duration_def)
qed

subsection \<open>Failures\<close>

text \<open>C12. The failure ledger is the retry evidence: a failed attempt is listed for its source with
its text, its time and one more attempt than before, operations on other keys do not change the
count, and completing any file of a path retires every failure of that path.\<close>

theorem failures_are_retry_evidence:
  assumes "s = fold apply_op ops s0" "ledger_inv s0" "list_all (\<lambda>op. op_key op \<noteq> Some k) ops"
    and "s1 = apply_op (OpFailed None t k f msg) s"
    and "mem_list_failures None (k_source k) s1 = Inr listed"
  shows "attempts k f s1 = attempts k f s0 + 1 \<and>
    list_ex (\<lambda>r. fail_key r = k \<and> identity (fail_file r) = identity f \<and> fail_error r = msg \<and>
      fail_at r = t \<and> fail_attempts r = attempts k f s1) listed \<and>
    (mem_status_of k s0 \<noteq> None \<longrightarrow>
      list_all (\<lambda>(i, r). f_path (fail_file r) \<noteq> f_path g)
        (inner (failed_files (apply_op (OpCompleted None t' k g n) s1)) (state_key k)))"
proof -
  have inv: "ledger_inv s" unfolding assms(1) by (rule memory.inv_steps) fact
  have same: "attempts k f s = attempts k f s0"
    by (simp add: attempts_def assms(1) failed_frame_fold [OF assms(3)])
  have a: "attempts k f s1 = attempts k f s0 + 1"
    unfolding assms(4) mark_failed_attempts same ..
  have st: "mem_status_of k s1 = mem_status_of k s0"
    using memory.status_survives [OF assms(2,3)] by (simp add: assms(1,4) mem_defs mem_status_of_def)
  show ?thesis
    using a mark_failed_listed [OF inv assms(5) [unfolded assms(4)]] mark_completed_retires [of k s1 g t' n] st
    unfolding list_ex_iff same by auto
qed

theorem failures_are_retry_evidence_witness:
  "\<exists>listed. mem_list_failures None ''line-1''
      (apply_op (OpFailed None 7 key_1 file_a ''locked'') (fold apply_op [OpBegin None 6 key_2 10]
        (apply_op (OpFailed None 5 key_1 file_a ''share gone'') new_memory))) = Inr listed \<and>
    list_ex (\<lambda>r. fail_error r = ''locked'' \<and> fail_attempts r = 2) listed"
proof -
  let ?s0 = "apply_op (OpFailed None 5 key_1 file_a ''share gone'') new_memory"
  let ?s1 = "apply_op (OpFailed None 7 key_1 file_a ''locked'') (fold apply_op [OpBegin None 6 key_2 10] ?s0)"
  have inv: "ledger_inv ?s0" by (rule apply_op_inv) simp
  have k: "k_source key_1 = ''line-1''" by (simp add: key_1_def)
  have a: "attempts key_1 file_a ?s0 = 1"
    unfolding mark_failed_attempts by (simp add: attempts_def new_memory_def inner_def)
  obtain listed where l: "mem_list_failures None (k_source key_1) ?s1 = Inr listed"
    by (simp add: mem_list_failures_def)
  have "list_all (\<lambda>op. op_key op \<noteq> Some key_1) [OpBegin None 6 key_2 10]" by simp
  note retry = failures_are_retry_evidence [OF refl inv this refl l]
  have two: "attempts key_1 file_a ?s1 = 2" using conjunct1 [OF retry] a by (simp only: one_add_one)
  from conjunct1 [OF conjunct2 [OF retry]]
  have "list_ex (\<lambda>r. fail_error r = ''locked'' \<and> fail_attempts r = 2) listed"
    unfolding two list_ex_iff by blast
  with l show ?thesis unfolding k by blast
qed

subsection \<open>Queries\<close>

text \<open>C13. After any history, the last completed date of a source is the greatest of its dates up to
the given one whose status is Succeeded, and there is none exactly when no such date succeeded.\<close>

theorem last_completed_is_latest:
  "let s = fold apply_op ops new_memory in
     mem_last_completed None src before s =
       Inr (if success_dates src before s = {} then None else Some (Max (success_dates src before s)))"
  using last_completed_spec [OF memory.inv_steps [OF new_memory_inv, of ops]]
  by (simp add: opt_max_def Let_def)

text \<open>C14. The worklist: after any history the incomplete keys of a source are listed once each, by
date, and they are exactly its keys up to the given date whose status is neither Succeeded nor
Skipped, running ones only when their lease is stale.\<close>

theorem incomplete_is_worklist:
  assumes "s = fold apply_op ops new_memory" "mem_list_incomplete None now src until stale s = Inr ks"
  shows "sorted (map k_date ks) \<and> distinct ks \<and>
    set ks = {k. k_source k = src \<and> k_date k \<le> until \<and>
      (\<exists>r. map_of (collections s) (state_key k) = Some r \<and> rec_status r \<noteq> StatusSucceeded \<and>
         rec_status r \<noteq> StatusSkipped \<and> \<not> (rec_status r = StatusRunning \<and> time_sub now (rec_started r) < stale))}"
proof -
  have inv: "ledger_inv s" unfolding assms(1) by (rule memory.inv_steps) simp
  note spec = list_incomplete_spec [OF inv assms(2)]
  have "(\<exists>r. map_of (collections s) (state_key k) = Some r \<and> incomplete now src until stale r) \<longleftrightarrow>
    (k_source k = src \<and> k_date k \<le> until \<and>
      (\<exists>r. map_of (collections s) (state_key k) = Some r \<and> rec_status r \<noteq> StatusSucceeded \<and>
         rec_status r \<noteq> StatusSkipped \<and> \<not> (rec_status r = StatusRunning \<and> time_sub now (rec_started r) < stale)))" for k
    using inv_lookup [OF inv, of "state_key k"] by (fastforce simp: incomplete_def split: if_splits)
  with spec show ?thesis by simp
qed

theorem incomplete_is_worklist_witness:
  "\<exists>ks. mem_list_incomplete None 100 ''line-1'' day_2 10
      (fold apply_op [OpBegin None 5 key_2 10, OpBegin None 6 key_1 10, OpEnd None 7 7 key_1 StatusFailed ''x''] new_memory) =
      Inr ks \<and> sorted (map k_date ks) \<and> distinct ks"
proof -
  let ?s = "fold apply_op [OpBegin None 5 key_2 10, OpBegin None 6 key_1 10, OpEnd None 7 7 key_1 StatusFailed ''x'']
    new_memory"
  obtain ks where ks: "mem_list_incomplete None 100 ''line-1'' day_2 10 ?s = Inr ks"
    by (simp add: mem_list_incomplete_def)
  from incomplete_is_worklist [OF refl ks] ks show ?thesis by blast
qed

text \<open>C15. No query sees Go's map order: two ledgers holding the same entries answer the
collector's queries alike.\<close>

theorem queries_ignore_map_order:
  assumes "ledger_inv s" "ledger_inv s'" "same_contents s s'"
  shows "mem_collection_records c src s = mem_collection_records c src s' \<and>
    mem_last_completed c src before s = mem_last_completed c src before s' \<and>
    mem_list_incomplete c now src until stale s = mem_list_incomplete c now src until stale s' \<and>
    mem_status_of k s = mem_status_of k s' \<and> mem_file_completed c k f s = mem_file_completed c k f s'"
  using queries_same [OF assms] by blast

theorem queries_ignore_map_order_witness:
  "mem_collection_records None ''line-1'' (fold apply_op [OpBegin None 5 key_1 1, OpBegin None 5 key_2 1] new_memory) =
   mem_collection_records None ''line-1'' (fold apply_op [OpBegin None 5 key_2 1, OpBegin None 5 key_1 1] new_memory)"
proof -
  let ?a = "fold apply_op [OpBegin None 5 key_1 1, OpBegin None 5 key_2 1] new_memory"
  let ?b = "fold apply_op [OpBegin None 5 key_2 1, OpBegin None 5 key_1 1] new_memory"
  have i: "ledger_inv ?a" "ledger_inv ?b" by (rule memory.inv_steps; simp)+
  have "same_contents ?a ?b"
    by (auto simp: same_contents_def mem_begin_def open_collection_def new_memory_def)
  from conjunct1 [OF queries_ignore_map_order [OF i this]] show ?thesis .
qed

subsection \<open>Restarts\<close>

text \<open>C10. A completed file survives a restart. Assume a ledger whose dates are nonzero and of the years
0 to 9999 (or otherwise read back from their text), whose texts are valid UTF-8, since JSON writes other
bytes as the replacement character, and whose files have the source of their key, of which the state
file keeps one. When marking a file returned without error and the load succeeds, the loaded ledger has the file
completed (unless its date is Skipped, which the load purges), and for every key the statuses are those of
before with Pending turned into Failed and Skipped removed, and the attempt counts are those of
before except that succeeded dates have none.\<close>

theorem restart_keeps_ledger:
  assumes ok: "fst (fs_mark_completed io None t k f n fs0) = Inr ()"
    and fs: "fs = snd (fs_mark_completed io None t k f n fs0)"
    and inv: "ledger_inv (mem fs0)"
    and "sources_agree (mem fs)" "dates_ok (mem fs)" "texts_ok (mem fs)" "path \<noteq> ''''"
    and load: "new_file io' path (Holds (the (disk fs))) = Inr fs'"
  shows "mem_status_of q (mem fs') = Option.bind (mem_status_of q (mem fs)) migrated \<and>
    (mem_finished q g (mem fs') \<longleftrightarrow> mem_finished q g (mem fs) \<and> mem_status_of q (mem fs) \<noteq> Some StatusSkipped) \<and>
    mem_finished k f (mem fs) \<and>
    attempts q g (mem fs') =
      (if mem_status_of q (mem fs) \<in> {Some StatusSucceeded, Some StatusSkipped} then 0 else attempts q g (mem fs))"
proof -
  have m: "mem fs = apply_op (OpCompleted None t k f n) (mem fs0)"
    using mem_fs_apply [of io "OpCompleted None t k f n" fs0] by (simp add: fs)
  have known: "mem_status_of k (mem fs0) \<noteq> None"
    using ok by (auto simp: fs_mark_completed_def then_save_def mem_mark_completed_def mem_status_of_def Let_def
        split: if_splits)
  have d: "disk fs = Some (encode_snapshot (snapshot (mem fs)))"
    using ok by (auto simp: fs fs_mark_completed_def then_save_def save_def split: prod.splits sum.splits option.splits)
  have i: "ledger_inv (mem fs)" unfolding m by (rule memory.inv_step [OF inv])
  have "mem_finished k f (mem fs)" unfolding m by (rule memory.finished_marks [OF inv known])
  with loaded_ledger [OF i assms(4-7), of io' fs'] load show ?thesis by (simp add: d)
qed

lemma civil_samples: "civil_of_day 738000 = (2021, 7, 30)" "civil_of_day 738001 = (2021, 7, 31)"
  by code_simp+

lemma dated_samples: "dated day_1" "dated day_2"
  by (rule datedI; simp add: day_1_def day_2_def is_zero_date_def civil_date_def civil_samples)+

lemma new_file_loads:
  assumes "dates_ok s" "path \<noteq> ''''"
  shows "\<exists>fs'. new_file None path (Holds (snapshot s)) = Inr fs'"
proof -
  obtain m p c where "migrate_pre_instance (restore (snapshot s) new_memory) = (m, p, c)"
    by (metis prod_cases3)
  then show ?thesis using assms by (simp add: new_file_def decode_own_snapshot save_def Let_def)
qed

definition fs_sample :: file_state where
  "fs_sample = fs_apply None (OpBegin None 5 key_1 10) \<lparr>mem = new_memory, disk = None\<rparr>"

lemma fs_sample_mem: "mem fs_sample = open_collection 5 key_1 new_memory"
  by (simp add: fs_sample_def mem_begin_def new_memory_def del: fs_apply.simps)

theorem restart_keeps_ledger_witness:
  "\<exists>fs'. new_file None ''state.json'' (Holds (the (disk (snd (fs_mark_completed None None 6 key_1 file_a 3 fs_sample))))) =
      Inr fs' \<and> mem_finished key_1 file_a (mem fs') \<and> mem_status_of key_1 (mem fs') = Some StatusRunning"
proof -
  let ?r = "fs_mark_completed None None 6 key_1 file_a 3 fs_sample"
  have ok: "fst ?r = Inr ()"
    by (simp add: fs_mark_completed_def then_save_def save_def mem_mark_completed_def fs_sample_mem
        open_collection_def new_memory_def Let_def)
  have m: "mem (snd ?r) = apply_op (OpCompleted None 6 key_1 file_a 3) (open_collection 5 key_1 new_memory)"
    using mem_fs_apply [of None "OpCompleted None 6 key_1 file_a 3" fs_sample] by (simp add: fs_sample_mem)
  have inv: "ledger_inv (mem fs_sample)"
    using memory.inv_step [OF new_memory_inv, of "OpBegin None 5 key_1 10"]
    by (simp add: fs_sample_mem mem_begin_def) (simp add: new_memory_def)
  have "list_all valid_string [k_source key_1, f_path file_a, f_name file_a, f_hash file_a]" by code_simp
  then have parts: "sources_agree (mem (snd ?r))" "dates_ok (mem (snd ?r))" "texts_ok (mem (snd ?r))"
    "mem_status_of key_1 (mem (snd ?r)) = Some StatusRunning"
    unfolding m using dated_samples
    by (auto simp: mem_mark_completed_def open_collection_def new_memory_def Let_def sources_agree_def dates_ok_def
        flat_def put_inner_def inner_def key_1_def file_a_def mem_status_of_def texts_ok_def)
  have d: "disk (snd ?r) = Some (encode_snapshot (snapshot (mem (snd ?r))))"
    by (simp add: fs_mark_completed_def then_save_def save_def mem_mark_completed_def fs_sample_mem
        open_collection_def new_memory_def Let_def)
  have path: "''state.json'' \<noteq> ''''" by simp
  obtain fs' where load: "new_file None ''state.json'' (Holds (the (disk (snd ?r)))) = Inr fs'"
    using new_file_loads [OF parts(2) path] unfolding d option.sel encode_own_snapshot [OF parts(3)] by blast
  from restart_keeps_ledger [OF ok refl inv parts(1-3) path load, of key_1 file_a] load parts(4)
  show ?thesis by (auto simp: migrated_def)
qed

end
