(* ===== verification/LedgerRace.thy ===== *)
theory LedgerRace
  imports LedgerProps
begin

text \<open>
  FileState under concurrent callers: the mutex, the memory ledger, the temporary file and the
  state file, stepped one instruction of one method call at a time. Every mutating method holds
  the mutex until it returns, except \<open>Drop\<close>, which unlocks before it saves. A method returns early
  when the memory ledger refuses, and when json.Marshal, MkdirAll, WriteFile or Rename fails.
\<close>

text \<open>
  The instructions of \<open>save\<close> carry the answer of the file system; that of \<open>MakeDir\<close> is Marshal's
  or MkdirAll's. A failing WriteFile may leave a damaged temporary file.
\<close>

datatype content = Snap memory_snapshot | Damaged

datatype instr =
    Lock
  | Unlock
  | Mutate ledger_op
  | TakeSnapshot
  | MakeDir "err option"
  | WriteTmp "(err \<times> bool) option"
  | RenameTmp "err option"

text \<open>A call: what it still has to do, the snapshot it took, the error its save returned.\<close>

type_synonym thread = "instr list \<times> memory_snapshot option \<times> err option"

record sys =
  sys_mem :: ledger
  sys_tmp :: "content option"
  sys_disk :: "content option"
  holder :: "nat option"
  threads :: "thread list"

type_synonym save_io = "err option \<times> (err \<times> bool) option \<times> err option"

definition save_call :: "save_io \<Rightarrow> instr list" where
  "save_call io = (case io of (a, b, c) \<Rightarrow> [TakeSnapshot, MakeDir a, WriteTmp b, RenameTmp c])"

text \<open>\<open>Begin\<close>, \<open>End\<close>, \<open>MarkFileCompleted\<close>, \<open>MarkFileFailed\<close>, \<open>SetAppendMode\<close>: deferred unlock.\<close>

definition locked_call :: "save_io \<times> ledger_op \<Rightarrow> instr list" where
  "locked_call = (\<lambda>(io, op). [Lock, Mutate op] @ save_call io @ [Unlock])"

definition drop_call :: "save_io \<Rightarrow> ctx \<Rightarrow> collection_key \<Rightarrow> instr list" where
  "drop_call io c k = [Lock, Mutate (OpDrop c k), Unlock] @ save_call io"

text \<open>Whether the memory ledger's method lets the caller go on to \<open>save\<close>.\<close>

fun op_saves :: "ledger_op \<Rightarrow> ledger \<Rightarrow> bool" where
  "op_saves (OpBegin c now k lease) s \<longleftrightarrow> fst (mem_begin c now k lease s) = Inr True"
| "op_saves (OpEnd c now1 now2 k st note) s \<longleftrightarrow> fst (mem_end c now1 now2 k st note s) = Inr ()"
| "op_saves (OpDrop c k) s \<longleftrightarrow> fst (mem_drop c k s) = Inr ()"
| "op_saves (OpCompleted c now k f n) s \<longleftrightarrow> fst (mem_mark_completed c now k f n s) = Inr ()"
| "op_saves (OpFailed c now k f msg) s \<longleftrightarrow> fst (mem_mark_failed c now k f msg s) = Inr ()"
| "op_saves OpAppendMode s \<longleftrightarrow> True"

text \<open>An early return runs the unlock that is due and nothing else.\<close>

definition early :: "instr list \<Rightarrow> instr list" where
  "early r = filter (\<lambda>i. i = Unlock) r"

definition goto :: "nat \<Rightarrow> thread \<Rightarrow> sys \<Rightarrow> sys" where
  "goto i t s = s\<lparr>threads := (threads s)[i := t]\<rparr>"

text \<open>One step of thread \<open>i\<close>; \<open>None\<close> when it is done or waits for the mutex.\<close>

definition step_thread :: "nat \<Rightarrow> sys \<Rightarrow> sys option" where
  "step_thread i s =
     (if length (threads s) \<le> i then None
      else case threads s ! i of
        ([], t) \<Rightarrow> None
      | (Lock # r, t) \<Rightarrow> (if holder s = None then Some (goto i (r, t) (s\<lparr>holder := Some i\<rparr>)) else None)
      | (Unlock # r, t) \<Rightarrow> Some (goto i (r, t) (s\<lparr>holder := None\<rparr>))
      | (Mutate op # r, t) \<Rightarrow>
          Some (goto i (if op_saves op (sys_mem s) then r else early r, t) (s\<lparr>sys_mem := apply_op op (sys_mem s)\<rparr>))
      | (TakeSnapshot # r, sn, e) \<Rightarrow> Some (goto i (r, Some (snapshot (sys_mem s)), e) s)
      | (MakeDir io # r, sn, e) \<Rightarrow>
          (case io of None \<Rightarrow> Some (goto i (r, sn, e) s) | Some x \<Rightarrow> Some (goto i (early r, sn, Some x) s))
      | (WriteTmp io # r, sn, e) \<Rightarrow>
          (case io of
             None \<Rightarrow> Some (goto i (r, sn, e) (s\<lparr>sys_tmp := map_option (\<lambda>sn. Snap (encode_snapshot sn)) sn\<rparr>))
           | Some (x, damaged) \<Rightarrow>
               Some (goto i (early r, sn, Some x) (if damaged then s\<lparr>sys_tmp := Some Damaged\<rparr> else s)))
      | (RenameTmp io # r, sn, e) \<Rightarrow>
          (case (io, sys_tmp s) of
             (None, Some d) \<Rightarrow> Some (goto i (r, sn, e) (s\<lparr>sys_disk := Some d, sys_tmp := None\<rparr>))
           | (None, None) \<Rightarrow> Some (goto i (early r, sn, Some os_not_exist) s)
           | (Some x, _) \<Rightarrow> Some (goto i (early r, sn, Some x) s)))"

inductive sys_reach :: "sys \<Rightarrow> sys \<Rightarrow> bool" for s0 where
  start: "sys_reach s0 s0"
| step: "sys_reach s0 s \<Longrightarrow> step_thread i s = Some s' \<Longrightarrow> sys_reach s0 s'"

fun run_schedule :: "nat list \<Rightarrow> sys \<Rightarrow> sys option" where
  "run_schedule [] s = Some s"
| "run_schedule (i # is) s = (case step_thread i s of None \<Rightarrow> None | Some s' \<Rightarrow> run_schedule is s')"

lemma run_schedule_reach: "sys_reach s0 s \<Longrightarrow> run_schedule is s = Some s' \<Longrightarrow> sys_reach s0 s'"
  by (induction "is" arbitrary: s) (auto split: option.splits intro: sys_reach.step)

definition calls :: "ledger \<Rightarrow> instr list list \<Rightarrow> sys" where
  "calls m ps = \<lparr>sys_mem = m, sys_tmp = None, sys_disk = Some (Snap (encode_snapshot (snapshot m))), holder = None,
     threads = map (\<lambda>p. (p, None, None)) ps\<rparr>"

definition all_done :: "sys \<Rightarrow> bool" where
  "all_done s \<longleftrightarrow> list_all (\<lambda>(p, t). p = []) (threads s)"

definition save_failed :: "sys \<Rightarrow> bool" where
  "save_failed s \<longleftrightarrow> list_ex (\<lambda>(p, sn, e). e \<noteq> None) (threads s)"

section \<open>Calls that hold the mutex\<close>

lemma refused_op: "\<not> op_saves op s \<Longrightarrow> apply_op op s = s"
  by (cases op) (auto simp: mem_defs split: option.splits if_splits status.splits)

definition on_disk :: "sys \<Rightarrow> bool" where
  "on_disk s \<longleftrightarrow> sys_disk s = Some (Snap (encode_snapshot (snapshot (sys_mem s))))"

text \<open>The file is current, or some save has failed.\<close>

definition on_disk_or_failed :: "sys \<Rightarrow> bool" where
  "on_disk_or_failed s \<longleftrightarrow> on_disk s \<or> save_failed s"

definition idle :: "thread \<Rightarrow> bool" where
  "idle t \<longleftrightarrow> fst t = [] \<or> (\<exists>c. t = (locked_call c, None, None))"

definition inside :: "sys \<Rightarrow> thread \<Rightarrow> bool" where
  "inside s t \<longleftrightarrow>
     (\<exists>op a b c. t = ([Mutate op, TakeSnapshot, MakeDir a, WriteTmp b, RenameTmp c, Unlock], None, None) \<and> on_disk_or_failed s) \<or>
     (\<exists>a b c. t = ([TakeSnapshot, MakeDir a, WriteTmp b, RenameTmp c, Unlock], None, None)) \<or>
     (\<exists>a b c. t = ([MakeDir a, WriteTmp b, RenameTmp c, Unlock], Some (snapshot (sys_mem s)), None)) \<or>
     (\<exists>b c. t = ([WriteTmp b, RenameTmp c, Unlock], Some (snapshot (sys_mem s)), None)) \<or>
     (\<exists>c. t = ([RenameTmp c, Unlock], Some (snapshot (sys_mem s)), None) \<and>
        sys_tmp s = Some (Snap (encode_snapshot (snapshot (sys_mem s))))) \<or>
     (fst t = [Unlock] \<and> on_disk_or_failed s)"

definition sys_inv :: "sys \<Rightarrow> bool" where
  "sys_inv s \<longleftrightarrow>
     (case holder s of
        None \<Rightarrow> on_disk_or_failed s \<and> (\<forall>i < length (threads s). idle (threads s ! i))
      | Some j \<Rightarrow> j < length (threads s) \<and> inside s (threads s ! j) \<and>
          (\<forall>i < length (threads s). i \<noteq> j \<longrightarrow> idle (threads s ! i)))"

lemma idle_step:
  assumes "idle (threads s ! i)" "step_thread i s = Some s'"
  shows "i < length (threads s) \<and> holder s = None \<and>
    (\<exists>op a b c. threads s ! i = ([Lock, Mutate op, TakeSnapshot, MakeDir a, WriteTmp b, RenameTmp c, Unlock], None, None) \<and>
      s' = goto i ([Mutate op, TakeSnapshot, MakeDir a, WriteTmp b, RenameTmp c, Unlock], None, None) (s\<lparr>holder := Some i\<rparr>))"
  using assms
  by (cases "threads s ! i") (auto simp: idle_def step_thread_def locked_call_def save_call_def split: if_splits; blast)

lemma save_failed_goto: "j < length (threads s) \<Longrightarrow> save_failed (goto j (p, sn, Some e) s)"
  by (auto simp: save_failed_def goto_def list_ex_iff intro!: bexI [of _ "(p, sn, Some e)"] set_update_memI)

lemma save_failed_kept:
  assumes "j < length (threads s)" "threads s ! j = (p, sn, e)" "save_failed s"
  shows "save_failed (goto j (p', sn', e) s)"
proof -
  obtain k p1 sn1 x where k: "k < length (threads s)" "threads s ! k = (p1, sn1, Some x)"
    using assms(3) by (auto simp: save_failed_def list_ex_iff in_set_conv_nth)
  then have "(threads s)[j := (p', sn', e)] ! k = (if k = j then (p', sn', Some x) else (p1, sn1, Some x))"
    using assms(1,2) by (auto simp: nth_list_update)
  then have "\<exists>a b. (a, b, Some x) \<in> set ((threads s)[j := (p', sn', e)])"
    using k(1) by (metis length_list_update nth_mem)
  then show ?thesis by (auto simp: save_failed_def goto_def list_ex_iff)
qed

text \<open>The step of the holder, when the others are idle.\<close>

lemma inside_step:
  assumes "holder s = Some j" "j < length (threads s)" "inside s (threads s ! j)"
    and idle: "\<forall>i < length (threads s). i \<noteq> j \<longrightarrow> idle (threads s ! i)"
    and step: "step_thread j s = Some s'"
  shows "sys_inv s'"
proof -
  have stay: "sys_inv (goto j u s1)" if "threads s1 = threads s" "holder s1 = Some j" "inside (goto j u s1) u" for u s1
    using assms(2) idle that by (simp add: sys_inv_def goto_def)
  have failed: "sys_inv (goto j ([Unlock], sn, Some e) s1)" if "threads s1 = threads s" "holder s1 = Some j" for sn e s1
    using save_failed_goto [of j s1 "[Unlock]" sn e] assms(2) that
    by (intro stay) (simp_all add: inside_def on_disk_or_failed_def)
  note at = step_thread_def early_def
  from assms(3) consider
      (mutate) op a b c where "threads s ! j = ([Mutate op, TakeSnapshot, MakeDir a, WriteTmp b, RenameTmp c, Unlock], None, None)"
        "on_disk_or_failed s"
    | (snap) a b c where "threads s ! j = ([TakeSnapshot, MakeDir a, WriteTmp b, RenameTmp c, Unlock], None, None)"
    | (dir) a b c where "threads s ! j = ([MakeDir a, WriteTmp b, RenameTmp c, Unlock], Some (snapshot (sys_mem s)), None)"
    | (tmp) b c where "threads s ! j = ([WriteTmp b, RenameTmp c, Unlock], Some (snapshot (sys_mem s)), None)"
    | (rename) c where "threads s ! j = ([RenameTmp c, Unlock], Some (snapshot (sys_mem s)), None)"
        "sys_tmp s = Some (Snap (encode_snapshot (snapshot (sys_mem s))))"
    | (unlock) sn e where "threads s ! j = ([Unlock], sn, e)" "on_disk_or_failed s"
    unfolding inside_def by (metis prod.collapse)
  then show ?thesis
  proof cases
    case mutate
    show ?thesis
    proof (cases "op_saves op (sys_mem s)")
      case True
      with step mutate(1) assms(2) have s': "s' = goto j ([TakeSnapshot, MakeDir a, WriteTmp b, RenameTmp c, Unlock], None, None)
          (s\<lparr>sys_mem := apply_op op (sys_mem s)\<rparr>)" by (simp add: at)
      show ?thesis unfolding s' by (rule stay) (use assms(1) in \<open>auto simp: inside_def goto_def\<close>)
    next
      case False
      with step mutate(1) assms(2) have s': "s' = goto j ([Unlock], None, None) s"
        by (simp add: at refused_op [OF False])
      have "on_disk_or_failed (goto j ([Unlock], None, None) s)"
        using mutate save_failed_kept [OF assms(2) mutate(1)]
        by (auto simp: on_disk_or_failed_def) (simp add: on_disk_def goto_def)
      then show ?thesis unfolding s' using assms(1) by (intro stay) (simp_all add: inside_def)
    qed
  next
    case snap
    with step assms(2) have s': "s' = goto j ([MakeDir a, WriteTmp b, RenameTmp c, Unlock], Some (snapshot (sys_mem s)), None) s"
      by (simp add: at)
    show ?thesis unfolding s' by (rule stay) (use assms(1) in \<open>auto simp: inside_def goto_def\<close>)
  next
    case dir
    show ?thesis
    proof (cases a)
      case None
      with dir step assms(2) have s': "s' = goto j ([WriteTmp b, RenameTmp c, Unlock], Some (snapshot (sys_mem s)), None) s"
        by (simp add: at)
      show ?thesis unfolding s' by (rule stay) (use assms(1) in \<open>auto simp: inside_def goto_def\<close>)
    next
      case (Some x)
      with dir step assms(2) have "s' = goto j ([Unlock], Some (snapshot (sys_mem s)), Some x) s" by (simp add: at)
      with assms(1) failed [of s] show ?thesis by simp
    qed
  next
    case tmp
    show ?thesis
    proof (cases b)
      case None
      with tmp step assms(2) have s': "s' = goto j ([RenameTmp c, Unlock], Some (snapshot (sys_mem s)), None)
          (s\<lparr>sys_tmp := Some (Snap (encode_snapshot (snapshot (sys_mem s))))\<rparr>)" by (simp add: at)
      show ?thesis unfolding s' by (rule stay) (use assms(1) in \<open>auto simp: inside_def goto_def\<close>)
    next
      case (Some xd)
      obtain x d where xd: "xd = (x, d)" by fastforce
      with Some tmp step assms(2) have "s' = goto j ([Unlock], Some (snapshot (sys_mem s)), Some x)
          (if d then s\<lparr>sys_tmp := Some Damaged\<rparr> else s)" by (simp add: at)
      with assms(1) failed [of s] failed [of "s\<lparr>sys_tmp := Some Damaged\<rparr>"] show ?thesis by simp
    qed
  next
    case rename
    show ?thesis
    proof (cases c)
      case None
      with rename step assms(2) have s': "s' = goto j ([Unlock], Some (snapshot (sys_mem s)), None)
          (s\<lparr>sys_disk := Some (Snap (encode_snapshot (snapshot (sys_mem s)))), sys_tmp := None\<rparr>)" by (simp add: at)
      then have "on_disk_or_failed s'" by (simp add: on_disk_or_failed_def on_disk_def goto_def)
      then show ?thesis using assms(1) unfolding s' by (intro stay) (simp_all add: inside_def)
    next
      case (Some x)
      with rename step assms(2) have "s' = goto j ([Unlock], Some (snapshot (sys_mem s)), Some x) s" by (simp add: at)
      then show ?thesis using assms(1) failed by simp
    qed
  next
    case unlock
    with step assms(2) have s': "s' = goto j ([], sn, e) (s\<lparr>holder := None\<rparr>)" by (simp add: at)
    have "on_disk_or_failed s'"
      using unlock save_failed_kept [OF assms(2) unlock(1), of "[]" sn] unfolding s'
      by (auto simp: on_disk_or_failed_def on_disk_def goto_def save_failed_def)
    then show ?thesis using idle assms(2) unfolding s'
      by (auto simp: sys_inv_def goto_def idle_def nth_list_update)
  qed
qed


lemma sys_inv_step:
  assumes "sys_inv s" "step_thread i s = Some s'"
  shows "sys_inv s'"
proof (cases "holder s")
  case None
  have i: "i < length (threads s)" using assms(2) by (auto simp: step_thread_def split: if_splits)
  with assms(1) None have "idle (threads s ! i)" by (simp add: sys_inv_def)
  from idle_step [OF this assms(2)] obtain op a b c
    where s': "s' = goto i ([Mutate op, TakeSnapshot, MakeDir a, WriteTmp b, RenameTmp c, Unlock], None, None)
      (s\<lparr>holder := Some i\<rparr>)"
      and t: "threads s ! i = ([Lock, Mutate op, TakeSnapshot, MakeDir a, WriteTmp b, RenameTmp c, Unlock], None, None)"
    by blast
  have "on_disk_or_failed s" using assms(1) None by (simp add: sys_inv_def)
  then have "on_disk_or_failed s'"
    using save_failed_kept [OF i t] by (auto simp: s' on_disk_or_failed_def on_disk_def goto_def save_failed_def)
  with assms(1) None i show ?thesis
    by (auto simp: sys_inv_def inside_def s' goto_def nth_list_update)
next
  case (Some j)
  note inv = assms(1) [unfolded sys_inv_def Some option.case(2)]
  show ?thesis
  proof (cases "i = j")
    case True
    with inside_step [OF Some] inv assms(2) show ?thesis by simp
  next
    case False
    have i: "i < length (threads s)" using assms(2) by (auto simp: step_thread_def split: if_splits)
    with inv False have "idle (threads s ! i)" by simp
    from idle_step [OF this assms(2)] Some show ?thesis by simp
  qed
qed

lemma idle_locked [simp]: "idle (locked_call c, None, None)"
  by (unfold idle_def) blast

lemma sys_inv_start: "sys_inv (calls m (map locked_call cs))"
  by (simp add: sys_inv_def calls_def on_disk_or_failed_def on_disk_def)

lemma locked_calls_inv: "sys_reach (calls m (map locked_call cs)) s \<Longrightarrow> sys_inv s"
  by (induction rule: sys_reach.induct) (auto intro: sys_inv_start sys_inv_step)

lemma done_on_disk:
  assumes "sys_inv s" "all_done s"
  shows "on_disk_or_failed s"
proof (cases "holder s")
  case (Some j)
  with assms(1) have "j < length (threads s)" "inside s (threads s ! j)" by (simp_all add: sys_inv_def)
  moreover from this(1) assms(2) have "fst (threads s ! j) = []" by (auto simp: all_done_def list_all_length)
  ultimately show ?thesis by (auto simp: inside_def)
qed (use assms in \<open>simp add: sys_inv_def\<close>)

text \<open>Only a rename changes the file, to the snapshot of the ledger at that moment.\<close>

lemma disk_step:
  assumes "sys_inv s" "step_thread i s = Some s'" "sys_disk s' \<noteq> sys_disk s"
  shows "sys_disk s' = Some (Snap (encode_snapshot (snapshot (sys_mem s)))) \<and> sys_mem s' = sys_mem s"
proof -
  have i: "i < length (threads s)" using assms(2) by (auto simp: step_thread_def split: if_splits)
  obtain r t d where at: "threads s ! i = (RenameTmp None # r, t)" "sys_tmp s = Some d" "sys_disk s' = Some d" "sys_mem s' = sys_mem s"
    using assms(2,3)
    by (auto simp: step_thread_def goto_def split: if_splits prod.splits list.splits instr.splits option.splits)
  have "\<not> idle (threads s ! i)" by (auto simp: at idle_def locked_call_def)
  with assms(1) i obtain "holder s = Some i" "inside s (threads s ! i)"
    by (auto simp: sys_inv_def split: option.splits)
  then have "d = Snap (encode_snapshot (snapshot (sys_mem s)))" using at(2) by (auto simp: at(1) inside_def)
  with at show ?thesis by simp
qed

lemma reach_on: "sys_reach s t \<Longrightarrow> sys_reach r s \<Longrightarrow> sys_reach r t"
  by (induction rule: sys_reach.induct) (auto intro: sys_reach.step)

lemma disk_history:
  "sys_reach (calls m (map locked_call cs)) s \<Longrightarrow>
     \<exists>u. sys_reach (calls m (map locked_call cs)) u \<and> sys_reach u s \<and>
       sys_disk s = Some (Snap (encode_snapshot (snapshot (sys_mem u))))"
proof (induction rule: sys_reach.induct)
  case start
  then show ?case by (intro exI [of _ "calls m (map locked_call cs)"]) (simp add: sys_reach.start, simp add: calls_def)
next
  case (step s i s')
  show ?case
  proof (cases "sys_disk s' = sys_disk s")
    case True
    with step show ?thesis by (metis sys_reach.step)
  next
    case False
    with disk_step [OF locked_calls_inv [OF step(1)] step(2)] step(1,2) show ?thesis
      by (intro exI [of _ s]) (auto intro: sys_reach.intros)
  qed
qed

text \<open>C16. Concurrent calls of the methods that hold the mutex, each refused or accepted by the
memory ledger, with file systems that fail at any point of any save: under every interleaving the state file
is at every moment the JSON of the ledger as it was at some moment of the run, never a
damaged or mixed one; and when all calls have returned, none with an error of its save, it is that of the ledger as it
is now.\<close>

theorem locked_saves_are_current:
  assumes "sys_reach (calls m (map locked_call cs)) s"
  shows "(\<exists>u. sys_reach (calls m (map locked_call cs)) u \<and> sys_reach u s \<and>
      sys_disk s = Some (Snap (encode_snapshot (snapshot (sys_mem u))))) \<and>
    (all_done s \<and> \<not> save_failed s \<longrightarrow> sys_disk s = Some (Snap (encode_snapshot (snapshot (sys_mem s)))))"
  using disk_history [OF assms] done_on_disk [OF locked_calls_inv [OF assms]]
  by (auto simp: on_disk_or_failed_def on_disk_def)

definition saved :: save_io where
  "saved = (None, None, None)"

definition two_begins :: "nat list" where
  "two_begins = [1, 1, 1, 1, 1, 1, 1, 0, 0, 0, 0, 0, 0, 0]"

text \<open>Two calls, and two of which the later one's write fails and damages the temporary file.\<close>

theorem locked_saves_are_current_witness:
  "(\<exists>s. run_schedule two_begins (calls new_memory (map locked_call
      [(saved, OpBegin None 5 key_1 10), (saved, OpBegin None 6 key_2 10)])) = Some s \<and>
     sys_disk s = Some (Snap (encode_snapshot (snapshot (sys_mem s))))) \<and>
   (\<exists>s. run_schedule (take 12 two_begins) (calls new_memory (map locked_call
      [((None, Some (err_io, True), None), OpBegin None 5 key_1 10), (saved, OpBegin None 6 key_2 10)])) = Some s \<and>
     save_failed s \<and> (\<exists>u :: sys. sys_disk s = Some (Snap (encode_snapshot (snapshot (sys_mem u))))))"
proof
  let ?c = "calls new_memory (map locked_call [(saved, OpBegin None 5 key_1 10), (saved, OpBegin None 6 key_2 10)])"
  have fresh: "map_of (collections (snd (mem_begin None 6 key_2 10 new_memory))) (state_key key_1) = None"
    by (simp add: mem_begin_def open_collection_def new_memory_def key_1_def key_2_def day_1_def day_2_def mk_key_def)
  have ok: "op_saves (OpBegin None 6 key_2 10) new_memory"
    "op_saves (OpBegin None 5 key_1 10) (apply_op (OpBegin None 6 key_2 10) new_memory)"
    using fresh by (simp_all add: mem_begin_def new_memory_def)
  obtain s where s: "run_schedule two_begins ?c = Some s" and d: "all_done s" "\<not> save_failed s"
    using ok by (auto simp: two_begins_def calls_def locked_call_def save_call_def saved_def step_thread_def goto_def
        all_done_def save_failed_def simp del: apply_op.simps op_saves.simps)
  from locked_saves_are_current [OF run_schedule_reach [OF sys_reach.start s]] s d
  show "\<exists>s. run_schedule two_begins ?c = Some s \<and>
     sys_disk s = Some (Snap (encode_snapshot (snapshot (sys_mem s))))" by blast
  let ?f = "calls new_memory (map locked_call
      [((None, Some (err_io, True), None), OpBegin None 5 key_1 10), (saved, OpBegin None 6 key_2 10)])"
  obtain t where t: "run_schedule (take 12 two_begins) ?f = Some t" and f: "save_failed t"
    using ok by (auto simp: two_begins_def calls_def locked_call_def save_call_def saved_def step_thread_def goto_def
        early_def save_failed_def simp del: apply_op.simps op_saves.simps)
  from locked_saves_are_current [OF run_schedule_reach [OF sys_reach.start t]] t f
  show "\<exists>s. run_schedule (take 12 two_begins) ?f = Some s \<and>
     save_failed s \<and> (\<exists>u :: sys. sys_disk s = Some (Snap (encode_snapshot (snapshot (sys_mem u)))))" by (intro exI [of _ t]) auto
qed

section \<open>Drop\<close>

lemma open_inv: "ledger_inv s \<Longrightarrow> ledger_inv (open_collection now k s)"
  by (simp add: open_collection_def inv_put_collection)

definition both_begun :: ledger where
  "both_begun = open_collection 6 key_2 (open_collection 5 key_1 new_memory)"

text \<open>C17. \<open>Drop\<close> saves after it has released the mutex: with a completion running at the same time
there is a schedule after which both calls have returned without error, memory has the file
completed, and the state file does not, so a restart forgets it.\<close>

theorem drop_can_lose_a_completion:
  "\<exists>s sn. sys_reach (calls both_begun
        [drop_call saved None key_1, locked_call (saved, OpCompleted None 7 key_2 file_a 3)]) s \<and>
     all_done s \<and> \<not> save_failed s \<and> mem_finished key_2 file_a (sys_mem s) \<and>
     sys_disk s = Some (Snap sn) \<and> \<not> mem_finished key_2 file_a (restore sn new_memory)"
proof -
  let ?c = "calls both_begun [drop_call saved None key_1, locked_call (saved, OpCompleted None 7 key_2 file_a 3)]"
  have ok: "op_saves (OpDrop None key_1) both_begun"
    "op_saves (OpCompleted None 7 key_2 file_a 3) (apply_op (OpDrop None key_1) both_begun)"
    by (simp_all add: mem_drop_def mem_mark_completed_def both_begun_def open_collection_def new_memory_def Let_def)
  obtain s where s: "run_schedule [0, 0, 0, 0, 1, 1, 1, 1, 1, 1, 1, 0, 0, 0] ?c = Some s" and d: "all_done s" "\<not> save_failed s"
    and m: "sys_mem s = apply_op (OpCompleted None 7 key_2 file_a 3) (apply_op (OpDrop None key_1) both_begun)"
    and k: "sys_disk s = Some (Snap (encode_snapshot (snapshot (apply_op (OpDrop None key_1) both_begun))))"
    using ok
    by (auto simp: calls_def drop_call_def locked_call_def save_call_def saved_def step_thread_def goto_def
        all_done_def save_failed_def simp del: apply_op.simps op_saves.simps)
  have inv: "ledger_inv (apply_op (OpDrop None key_1) both_begun)"
    by (rule apply_op_inv) (simp add: both_begun_def open_inv)
  have "mem_finished key_2 file_a (sys_mem s)"
    unfolding m by (rule memory.finished_marks [OF inv])
      (simp add: both_begun_def open_collection_def mem_drop_def new_memory_def mem_status_of_def Let_def)
  moreover have "\<not> mem_finished key_2 file_a
      (restore (encode_snapshot (snapshot (apply_op (OpDrop None key_1) both_begun))) new_memory)"
    by (simp add: mem_finished_def mem_file_completed_def restore_def snapshot_def encode_snapshot_def both_begun_def
        open_collection_def mem_drop_def new_memory_def inner_def Let_def)
  ultimately show ?thesis using run_schedule_reach [OF sys_reach.start s] d k by blast
qed

end
