(* ===== verification/Planner.thy ===== *)
theory Planner
  imports LedgerProps
begin

text \<open>
  Which dates a trigger attempts: the date policy (app/date/policy.go) and the recovery planner
  (app/recovery/planner.go), which joins the ledger's worklist with the calendar gap since the
  last completed date.
\<close>

section \<open>The date policy\<close>

record policy =
  pol_type :: string
  pol_specific :: collection_date

definition resolve_policy :: "policy \<Rightarrow> int \<Rightarrow> time \<Rightarrow> collection_date res" where
  "resolve_policy p offset now =
     (if pol_type p = '''' \<or> pol_type p = ''yesterday'' then
        Inr (add_date (new_collection_date offset now) 0 0 (- 1))
      else if pol_type p = ''today'' then Inr (new_collection_date offset now)
      else if pol_type p = ''specific'' then
        (if is_zero_date (pol_specific p) then
           Inl (Wrapped (err_text err_invalid_config @ '': specific date policy requires a date'') [err_invalid_config])
         else Inr (pol_specific p))
      else Inl (Wrapped (err_text err_invalid_config @ '': unknown date_policy '' @ go_quote (pol_type p))
             [err_invalid_config]))"

section \<open>The planner\<close>

definition add_key :: "collection_key list \<Rightarrow> collection_key \<Rightarrow> collection_key list" where
  "add_key ordered k = (if k \<in> set ordered then ordered else ordered @ [k])"

text \<open>The loop from the start date to the target, by days.\<close>

function gap_days :: "collection_date \<Rightarrow> collection_date \<Rightarrow> collection_date list" where
  "gap_days d target = (if date_after d target then [] else d # gap_days (add_date d 0 0 1) target)"
  by pat_completeness auto

termination
  by (relation "measure (\<lambda>(d, target). nat (day target + 1 - day d))")
    (auto simp: add_days less_collection_date_def)

declare gap_days.simps [simp del]

definition gap_start ::
  "int \<Rightarrow> collection_date option \<Rightarrow> collection_date \<Rightarrow> collection_date option" where
  "gap_start catchup last_done target =
     (let start0 = (case last_done of None \<Rightarrow> target | Some d \<Rightarrow> add_date d 0 0 1);
          plan0 = (case last_done of None \<Rightarrow> False | Some d \<Rightarrow> \<not> date_after start0 target)
      in if catchup > 0 then
           (let earliest = add_date target 0 0 (- (catchup - 1));
                start1 = (if last_done = None \<or> date_before start0 earliest then earliest else start0)
            in if \<not> date_after start1 target then Some start1 else None)
         else if plan0 then Some start0 else None)"

definition hours_24 :: duration where
  "hours_24 = 24 * 3600 * 1000000000"

definition plan ::
  "int \<Rightarrow> ctx \<Rightarrow> ctx \<Rightarrow> time \<Rightarrow> source_id \<Rightarrow> collection_date \<Rightarrow> ledger \<Rightarrow> collection_key list res" where
  "plan catchup c1 c2 now src target s =
     (case mem_list_incomplete c1 now src target hours_24 s of
        Inl e \<Rightarrow> Inl (Wrapped (''list incomplete: '' @ err_text e) [e])
      | Inr known \<Rightarrow>
          (let ordered1 = foldl (\<lambda>ks k. if \<not> date_after (k_date k) target then add_key ks k else ks) [] known
           in case mem_last_completed c2 src target s of
                Inl e \<Rightarrow> Inl (Wrapped (''last completed: '' @ err_text e) [e])
              | Inr last_done \<Rightarrow>
                  Inr (case gap_start catchup last_done target of
                         None \<Rightarrow> ordered1
                       | Some d \<Rightarrow> foldl add_key ordered1 (map (mk_key src) (gap_days d target)))))"

section \<open>What is planned\<close>

lemma set_gap_days: "set (gap_days d target) = {x. d \<le> x \<and> x \<le> target}"
proof (induction d target rule: gap_days.induct)
  case (1 d target)
  show ?case
  proof (cases "date_after d target")
    case True
    then show ?thesis by (auto simp: gap_days.simps [of d])
  next
    case False
    then have le: "d \<le> target" by simp
    have "{x. d \<le> x \<and> x \<le> target} = insert d {x. add_date d 0 0 1 \<le> x \<and> x \<le> target}"
      using le by (auto simp: add_days less_eq_collection_date_def collection_date.expand)
        (metis collection_date.exhaust_sel dual_order.antisym le_less zless_imp_add1_zle)
    with False 1 show ?thesis by (simp add: gap_days.simps [of d])
  qed
qed

lemma length_gap_days: "length (gap_days d target) = nat (day target + 1 - day d)"
proof (induction d target rule: gap_days.induct)
  case (1 d target)
  then show ?case
    by (cases "date_after d target")
      (auto simp: gap_days.simps [of d] add_days less_collection_date_def)
qed

lemma add_key_set [simp]: "set (add_key ks k) = insert k (set ks)"
  by (auto simp: add_key_def)

lemma add_key_distinct [simp]: "distinct ks \<Longrightarrow> distinct (add_key ks k)"
  by (simp add: add_key_def)

lemma add_keys_set: "set (foldl add_key ks xs) = set ks \<union> set xs"
  by (induction xs arbitrary: ks) auto

lemma add_keys_distinct: "distinct ks \<Longrightarrow> distinct (foldl add_key ks xs)"
  by (induction xs arbitrary: ks) auto

lemma add_known:
  "set (foldl (\<lambda>ks k. if P k then add_key ks k else ks) ks xs) = set ks \<union> {k \<in> set xs. P k}"
  "distinct ks \<Longrightarrow> distinct (foldl (\<lambda>ks k. if P k then add_key ks k else ks) ks xs)"
  by (induction xs arbitrary: ks) auto

lemma gap_start_spec:
  "gap_start catchup last_done target = Some d \<Longrightarrow>
     d \<le> target \<and> (catchup > 0 \<longrightarrow> day target - day d < catchup) \<and>
     (last_done \<noteq> None \<longrightarrow> the last_done < d) \<and> (last_done = None \<longrightarrow> catchup > 0 \<and> day d = day target - (catchup - 1))"
  by (auto simp: gap_start_def Let_def add_days less_collection_date_def less_eq_collection_date_def
      split: option.splits if_splits)

lemma gap_start_None:
  "gap_start catchup last_done target = None \<Longrightarrow>
     (last_done = None \<and> catchup \<le> 0) \<or> (\<exists>d. last_done = Some d \<and> target \<le> d)"
  by (auto simp: gap_start_def Let_def add_days less_collection_date_def less_eq_collection_date_def
      split: option.splits if_splits)

definition worklist :: "time \<Rightarrow> source_id \<Rightarrow> collection_date \<Rightarrow> ledger \<Rightarrow> collection_key set" where
  "worklist now src target s =
     {k. \<exists>r. map_of (collections s) (state_key k) = Some r \<and> incomplete now src target hours_24 r}"

lemma plan_spec:
  assumes inv: "ledger_inv s" and p: "plan catchup None None now src target s = Inr ks"
  shows "distinct ks" "set ks = worklist now src target s \<union>
    (case gap_start catchup (opt_max (success_dates src target s)) target of
       None \<Rightarrow> {} | Some d \<Rightarrow> {mk_key src x |x. d \<le> x \<and> x \<le> target})"
proof -
  obtain known where known: "mem_list_incomplete None now src target hours_24 s = Inr known"
    by (simp add: mem_list_incomplete_def)
  note kspec = list_incomplete_spec [OF inv known]
  have all: "{k \<in> set known. \<not> target < k_date k} = worklist now src target s"
    using kspec(3,4) by (auto simp: worklist_def list_all_iff not_less)
  show "distinct ks"
    using p known last_completed_spec [OF inv, of src target]
    by (auto simp: plan_def Let_def intro!: add_keys_distinct add_known(2) split: option.splits)
  show "set ks = worklist now src target s \<union>
    (case gap_start catchup (opt_max (success_dates src target s)) target of
       None \<Rightarrow> {} | Some d \<Rightarrow> {mk_key src x |x. d \<le> x \<and> x \<le> target})"
    using p known last_completed_spec [OF inv, of src target] all
    by (auto simp: plan_def Let_def add_keys_set add_known(1) set_gap_days split: option.splits)
qed

lemma worklist_keys:
  assumes "ledger_inv s" "k \<in> worklist now src target s"
  shows "k_source k = src" "k_date k \<le> target" "mem_status_of k s \<noteq> None"
proof -
  obtain r where r: "map_of (collections s) (state_key k) = Some r" "incomplete now src target hours_24 r"
    using assms(2) by (auto simp: worklist_def)
  moreover have "rec_key r = k" using inv_lookup [OF assms(1) r(1)] by simp
  ultimately show "k_source k = src" "k_date k \<le> target" "mem_status_of k s \<noteq> None"
    by (auto simp: incomplete_def mem_status_of_def not_less split: if_splits)
qed

lemma opt_max_None [simp]: "opt_max A = None \<longleftrightarrow> A = {}"
  by (simp add: opt_max_def)

lemma success_finite: "ledger_inv s \<Longrightarrow> finite (success_dates src before s)"
  by (simp add: success_dates_records)

lemma gap_covers:
  assumes "finite A" "A \<noteq> {} \<or> catchup > 0" "\<forall>a \<in> A. a < x" "x \<le> target"
    "catchup > 0 \<longrightarrow> day target - day x < catchup"
  shows "\<exists>d. gap_start catchup (opt_max A) target = Some d \<and> d \<le> x"
proof (cases "A = {}")
  case True
  with assms show ?thesis
    by (auto simp: gap_start_def Let_def opt_max_def add_days less_collection_date_def less_eq_collection_date_def)
next
  case False
  with assms(1,3) have "Max A < x" by simp
  then have "day (Max A) < day x" by (simp add: less_collection_date_def)
  with False assms(4,5) show ?thesis
    by (auto simp: gap_start_def Let_def opt_max_def add_days less_collection_date_def less_eq_collection_date_def)
qed

text \<open>C24. What a trigger attempts: each key once, of this source, up to the target; all of the
worklist; every date after the last success up to the target, within the catch-up window when
one is set; and beyond the worklist only such dates, so that with a window of n days at most
the last n dates are added.\<close>

theorem plan_is_worklist_and_gap:
  assumes "s = fold apply_op ops new_memory" "plan catchup None None now src target s = Inr ks"
  shows "distinct ks \<and> list_all (\<lambda>k. k_source k = src \<and> k_date k \<le> target) ks \<and>
    worklist now src target s \<subseteq> set ks \<and>
    (\<forall>x. x \<le> target \<and> list_all (\<lambda>(ck, r). \<not> (eligible src target r \<and> x \<le> k_date (rec_key r))) (collections s) \<and>
       (success_dates src target s \<noteq> {} \<or> catchup > 0) \<and> (catchup > 0 \<longrightarrow> day target - day x < catchup) \<longrightarrow>
       mk_key src x \<in> set ks) \<and>
    (\<forall>k \<in> set ks - worklist now src target s.
       (catchup > 0 \<longrightarrow> day target - day (k_date k) < catchup) \<and>
       (\<forall>d \<in> success_dates src target s. d < k_date k))"
proof -
  have inv: "ledger_inv s" unfolding assms(1) by (rule memory.inv_steps) simp
  let ?A = "success_dates src target s"
  note spec = plan_spec [OF inv assms(2)]
  have "list_all (\<lambda>k. k_source k = src \<and> k_date k \<le> target) ks"
    using spec(2) worklist_keys(1,2) [OF inv] by (auto simp: list_all_iff split: option.splits)
  moreover have "mk_key src x \<in> set ks"
    if x: "x \<le> target" "list_all (\<lambda>(ck, r). \<not> (eligible src target r \<and> x \<le> k_date (rec_key r))) (collections s)"
      "?A \<noteq> {} \<or> catchup > 0" "catchup > 0 \<longrightarrow> day target - day x < catchup" for x
  proof -
    have "\<forall>a \<in> ?A. a < x"
      using x(2) by (fastforce simp: success_dates_records [OF inv] list_all_iff not_le)
    from gap_covers [OF success_finite [OF inv] x(3) this x(1,4)] x(1) spec(2) show ?thesis by auto
  qed
  moreover have "(catchup > 0 \<longrightarrow> day target - day (k_date k) < catchup) \<and> (\<forall>d \<in> ?A. d < k_date k)"
    if k: "k \<in> set ks - worklist now src target s" for k
  proof -
    from k spec(2) obtain d x where d: "gap_start catchup (opt_max ?A) target = Some d"
      and x: "d \<le> x" "x \<le> target" "k = mk_key src x" by (auto split: option.splits)
    note g = gap_start_spec [OF d]
    have "a < x" if "a \<in> ?A" for a
    proof -
      have "a \<le> Max ?A" using that success_finite [OF inv] by simp
      also have "\<dots> < d" using g that by (auto simp: opt_max_def split: if_splits)
      finally show ?thesis using x(1) by simp
    qed
    with g x show ?thesis by (auto simp: less_eq_collection_date_def)
  qed
  ultimately show ?thesis using spec by blast
qed

theorem plan_is_worklist_and_gap_witness:
  "\<exists>ks. plan 3 None None 9 ''line-1'' day_2 (fold apply_op [OpBegin None 5 key_1 10] new_memory) = Inr ks \<and>
     distinct ks \<and> mk_key ''line-1'' day_2 \<in> set ks"
proof -
  let ?s = "fold apply_op [OpBegin None 5 key_1 10] new_memory"
  obtain ks where ks: "plan 3 None None 9 ''line-1'' day_2 ?s = Inr ks"
    by (simp add: plan_def mem_list_incomplete_def mem_last_completed_def Let_def)
  note p = plan_is_worklist_and_gap [OF refl ks]
  have "list_all (\<lambda>(ck, r). \<not> (eligible ''line-1'' day_2 r \<and> day_2 \<le> k_date (rec_key r))) (collections ?s)"
    by (simp add: mem_begin_def open_collection_def new_memory_def eligible_def)
  then have "mk_key ''line-1'' day_2 \<in> set ks" using p by simp
  with p ks show ?thesis by blast
qed

end
