(* ===== verification/MemStore.thy ===== *)
theory MemStore
  imports LedgerProps
begin

text \<open>
  The in-process storage of app/storage/memory.go, the contract of a storage that the collector
  relies on, and the proof that this storage keeps it. A row is known by the identity of its
  file and its number.
\<close>

section \<open>The store\<close>

record stored_row =
  sr_key :: collection_key
  sr_file :: file_identity
  sr_record :: row
  sr_header :: "string list"
  sr_at :: time

record stored_batch =
  sb_key :: collection_key
  sb_file :: file_identity
  sb_metadata :: metadata
  sb_sequence :: nat
  sb_header :: "string list"
  sb_records :: nat
  sb_at :: time

record mem_store =
  ms_rows :: "(string \<times> (nat \<times> stored_row) list) list"
  ms_by_file :: "(string \<times> stored_row list) list"
  ms_batches :: "stored_batch list"
  ms_total :: nat
  ms_skipped :: nat
  ms_writes :: nat
  ms_fail_after :: int
  ms_fail_err :: "err option"
  ms_hook :: "batch \<Rightarrow> nat \<Rightarrow> err option"

definition new_mem_store :: "int \<Rightarrow> err option \<Rightarrow> (batch \<Rightarrow> nat \<Rightarrow> err option) \<Rightarrow> mem_store" where
  "new_mem_store after e hook =
     \<lparr>ms_rows = [], ms_by_file = [], ms_batches = [], ms_total = 0, ms_skipped = 0, ms_writes = 0,
      ms_fail_after = after, ms_fail_err = e, ms_hook = hook\<rparr>"

definition row_key :: "string \<Rightarrow> nat \<Rightarrow> string" where
  "row_key fid n = fid @ ''|'' @ nat_dec n"

definition rows_at :: "(string \<times> (nat \<times> stored_row) list) list \<Rightarrow> string \<Rightarrow> (nat \<times> stored_row) list" where
  "rows_at m key = (case map_of m key of None \<Rightarrow> [] | Some i \<Rightarrow> i)"

definition by_file :: "mem_store \<Rightarrow> string \<Rightarrow> stored_row list" where
  "by_file h fid = (case map_of (ms_by_file h) fid of None \<Rightarrow> [] | Some rs \<Rightarrow> rs)"

text \<open>One record of the loop in \<open>Write\<close>.\<close>

definition store_record :: "time \<Rightarrow> batch \<Rightarrow> row \<Rightarrow> mem_store \<Rightarrow> mem_store" where
  "store_record now b r h =
     (let fid = identity (b_file b); key = row_key fid (row_number r); i = rows_at (ms_rows h) key;
          h1 = h\<lparr>ms_rows := AList.update key i (ms_rows h)\<rparr>
      in if row_number r \<in> set (keys_of i) then h1\<lparr>ms_skipped := ms_skipped h1 + 1\<rparr>
         else (let x = \<lparr>sr_key = b_key b, sr_file = b_file b, sr_record = r, sr_header = b_header b, sr_at = now\<rparr>
               in h1\<lparr>ms_rows := AList.update key (AList.update (row_number r) x i) (ms_rows h1),
                     ms_by_file := AList.update fid (by_file h1 fid @ [x]) (ms_by_file h1),
                     ms_total := ms_total h1 + 1\<rparr>))"

definition mem_write :: "time \<Rightarrow> ctx \<Rightarrow> batch \<Rightarrow> mem_store \<Rightarrow> unit res \<times> mem_store" where
  "mem_write now c b h =
     (case c of Some e \<Rightarrow> (Inl e, h)
      | None \<Rightarrow>
        (case ms_hook h b (ms_writes h) of
           Some e \<Rightarrow> (Inl e, h)
         | None \<Rightarrow>
             if ms_fail_after h > 0 \<and> int (ms_writes h) \<ge> ms_fail_after h then
               (case ms_fail_err h of
                  Some e \<Rightarrow> (Inl e, h)
                | None \<Rightarrow> (Inl (Wrapped (''memory storage injected failure after '' @ nat_dec (ms_writes h) @
                              '' batches'') []), h))
             else
               (let h1 = fold (store_record now b) (b_records b) h;
                    sb = \<lparr>sb_key = b_key b, sb_file = b_file b, sb_metadata = md_clone (b_metadata b),
                          sb_sequence = b_sequence b, sb_header = b_header b,
                          sb_records = length (b_records b), sb_at = now\<rparr>
                in (Inr (), h1\<lparr>ms_batches := ms_batches h1 @ [sb], ms_writes := ms_writes h1 + 1\<rparr>))))"

definition rows_for_file :: "file_identity \<Rightarrow> mem_store \<Rightarrow> stored_row list" where
  "rows_for_file f h = by_file h (identity f)"

definition rows_for_key :: "collection_key \<Rightarrow> mem_store \<Rightarrow> stored_row list" where
  "rows_for_key k h = filter (\<lambda>x. sr_key x = k) (concat (map snd (ms_by_file h)))"

definition store_total :: "mem_store \<Rightarrow> nat" where
  "store_total h = ms_total h"

section \<open>The contract of a storage\<close>

text \<open>
  A successful write has stored every record of the batch, and no write, successful or not,
  loses a row.
\<close>

locale storage_contract =
  fixes put :: "ctx \<Rightarrow> batch \<Rightarrow> 'h \<Rightarrow> unit res \<times> 'h"
    and stored :: "'h \<Rightarrow> string \<Rightarrow> nat \<Rightarrow> bool"
    and good :: "'h \<Rightarrow> bool"
  assumes write_good: "good h \<Longrightarrow> good (snd (put c b h))"
    and write_stores: "good h \<Longrightarrow> fst (put c b h) = Inr () \<Longrightarrow> r \<in> set (b_records b) \<Longrightarrow>
      stored (snd (put c b h)) (identity (b_file b)) (row_number r)"
    and write_keeps: "good h \<Longrightarrow> stored h fid n \<Longrightarrow> stored (snd (put c b h)) fid n"
begin

text \<open>Retrying a batch until it is accepted loses nothing of what was stored before.\<close>

lemma writes_keep:
  "good h \<Longrightarrow> stored h fid n \<Longrightarrow> stored (fold (\<lambda>(c, b) h. snd (put c b h)) bs h) fid n"
  by (induction bs arbitrary: h) (auto intro: write_good write_keeps)

end

section \<open>The memory store keeps the contract\<close>

definition ms_stored :: "mem_store \<Rightarrow> string \<Rightarrow> nat \<Rightarrow> bool" where
  "ms_stored h fid n \<longleftrightarrow> n \<in> set (keys_of (rows_at (ms_rows h) (row_key fid n)))"

definition numbers :: "mem_store \<Rightarrow> string \<Rightarrow> nat list" where
  "numbers h fid = map (\<lambda>x. row_number (sr_record x)) (by_file h fid)"

definition ms_good :: "mem_store \<Rightarrow> bool" where
  "ms_good h \<longleftrightarrow> (\<forall>fid. distinct (numbers h fid) \<and> (\<forall>n. n \<in> set (numbers h fid) \<longleftrightarrow> ms_stored h fid n))"

lemma nat_dec_no_bar: "CHR ''|'' \<notin> set (nat_dec n)"
  unfolding nat_dec_def using digits_lt10 digit_chars_plain by fastforce

lemma row_key_inject [simp]: "row_key f n = row_key g m \<longleftrightarrow> f = g \<and> n = m"
proof
  assume "row_key f n = row_key g m"
  then have "f = g \<and> nat_dec n = nat_dec m"
    by (intro bar_split) (simp_all add: row_key_def nat_dec_no_bar)
  then show "f = g \<and> n = m" by simp
qed simp

lemma rows_at_update: "rows_at (AList.update k v m) k' = (if k' = k then v else rows_at m k')"
  by (simp add: rows_at_def update_conv')

lemma stored_record:
  "ms_stored (store_record now b r h) fid n \<longleftrightarrow>
     ms_stored h fid n \<or> (fid = identity (b_file b) \<and> n = row_number r)"
  by (auto simp: ms_stored_def store_record_def Let_def rows_at_update)

lemma numbers_record:
  "numbers (store_record now b r h) fid =
     (if fid = identity (b_file b) \<and> \<not> ms_stored h fid (row_number r)
      then numbers h fid @ [row_number r] else numbers h fid)"
  by (auto simp: numbers_def by_file_def ms_stored_def store_record_def Let_def rows_at_def update_conv')

lemma record_good: "ms_good h \<Longrightarrow> ms_good (store_record now b r h)"
  unfolding ms_good_def by (auto simp: numbers_record stored_record)

lemma fold_record_good: "ms_good h \<Longrightarrow> ms_good (fold (store_record now b) rs h)"
  by (induction rs arbitrary: h) (auto intro: record_good)

lemma fold_record_stored:
  "ms_stored (fold (store_record now b) rs h) fid n \<longleftrightarrow>
     ms_stored h fid n \<or> (fid = identity (b_file b) \<and> n \<in> row_number ` set rs)"
  by (induction rs arbitrary: h) (auto simp: stored_record)

lemma ms_good_frame: "ms_rows h' = ms_rows h \<Longrightarrow> ms_by_file h' = ms_by_file h \<Longrightarrow> ms_good h' \<longleftrightarrow> ms_good h"
  by (simp add: ms_good_def numbers_def by_file_def ms_stored_def)

lemma mem_write_cases:
  "(\<exists>e. mem_write now c b h = (Inl e, h)) \<or>
   (\<exists>h'. mem_write now c b h = (Inr (), h') \<and>
      ms_rows h' = ms_rows (fold (store_record now b) (b_records b) h) \<and>
      ms_by_file h' = ms_by_file (fold (store_record now b) (b_records b) h))"
  by (auto simp: mem_write_def Let_def split: option.split)

lemma ms_stored_frame: "ms_rows h' = ms_rows h \<Longrightarrow> ms_stored h' fid n \<longleftrightarrow> ms_stored h fid n"
  by (simp add: ms_stored_def)

lemma mem_write_stored:
  "ms_stored (snd (mem_write now c b h)) fid n \<longleftrightarrow> ms_stored h fid n \<or>
     (fst (mem_write now c b h) = Inr () \<and> fid = identity (b_file b) \<and> n \<in> row_number ` set (b_records b))"
  using mem_write_cases [of now c b h]
proof (elim disjE exE conjE)
  fix h' assume h': "mem_write now c b h = (Inr (), h')"
    "ms_rows h' = ms_rows (fold (store_record now b) (b_records b) h)"
  show ?thesis unfolding h'(1) fst_conv snd_conv ms_stored_frame [OF h'(2)] fold_record_stored by simp
qed simp

interpretation mem_storage: storage_contract "mem_write now" ms_stored ms_good for now
proof
  fix h c b fid n r
  assume good: "ms_good h"
  show "ms_good (snd (mem_write now c b h))"
    using mem_write_cases [of now c b h]
  proof (elim disjE exE conjE)
    fix h' assume h': "mem_write now c b h = (Inr (), h')"
      "ms_rows h' = ms_rows (fold (store_record now b) (b_records b) h)"
      "ms_by_file h' = ms_by_file (fold (store_record now b) (b_records b) h)"
    show ?thesis unfolding h'(1) snd_conv ms_good_frame [OF h'(2,3)] by (rule fold_record_good [OF good])
  qed (simp add: good)
  show "ms_stored (snd (mem_write now c b h)) (identity (b_file b)) (row_number r)"
    if "fst (mem_write now c b h) = Inr ()" "r \<in> set (b_records b)"
    using that by (simp add: mem_write_stored)
  show "ms_stored (snd (mem_write now c b h)) fid n" if "ms_stored h fid n"
    using that by (simp add: mem_write_stored)
qed

lemma new_mem_store_good [simp]: "ms_good (new_mem_store after e hook)"
  by (simp add: ms_good_def new_mem_store_def numbers_def by_file_def ms_stored_def rows_at_def)

end
