(* ===== verification/Collector.thy ===== *)
theory Collector
  imports Planner MemStore
begin

text \<open>
  The executor of app/collector/executor.go: one file, one source and date, one trigger. The
  components it is given (source, metadata extractor, parser, storage, backup, host gate) and
  the readings of the clock, of \<open>ctx.Err()\<close> and of the file system's answers to a save are the
  fields of \<open>deps\<close>; each outside reading is numbered by a counter of the world, so two
  readings may differ. Logging is left out. Files are collected in discovery order
  (\<open>FilesPerSource\<close> at its default of 1).
\<close>

section \<open>The collector's surroundings\<close>

datatype event =
    EvCollectionStarted collection_key
  | EvFileStarted collection_key file_identity
  | EvFileDone collection_key file_result
  | EvCollectionDone collection_result

record 'h world =
  fs_of :: file_state
  store_of :: 'h
  tick :: nat
  seen :: "event list"

text \<open>A parsed file: its head, its column names, the rows before the stream ends, and how it ends.\<close>

record parsed =
  p_head :: csv_head
  p_header :: "string list"
  p_rows :: "row list"
  p_end :: "err option"

record 'h deps =
  d_source :: source_id
  d_list :: "nat \<Rightarrow> collection_key \<Rightarrow> file_identity list res"
  d_extract :: "(nat \<Rightarrow> file_identity \<Rightarrow> metadata res) option"
  d_source_md :: metadata
  d_read :: "nat \<Rightarrow> file_identity \<Rightarrow> err option"
  d_parse :: "nat \<Rightarrow> file_identity \<Rightarrow> parsed res"
  d_write :: "nat \<Rightarrow> ctx \<Rightarrow> batch \<Rightarrow> 'h \<Rightarrow> unit res \<times> 'h"
  d_backup :: "(nat \<Rightarrow> collection_key \<Rightarrow> file_identity \<Rightarrow> err option) option"
  d_host :: string
  d_reachable :: "nat \<Rightarrow> bool"
  d_ctx :: "nat \<Rightarrow> ctx"
  d_now :: "nat \<Rightarrow> time"
  d_io :: "nat \<Rightarrow> err option"
  d_platform :: platform
  d_zone :: int
  d_policy :: policy
  d_batch_size :: int
  d_catchup :: int
  d_since :: collection_date

text \<open>\<open>withDefaults\<close>: the batch size that counts.\<close>

definition batch_size :: "'h deps \<Rightarrow> int" where
  "batch_size d = (if d_batch_size d \<le> 0 then 1000 else d_batch_size d)"

definition ticked :: "nat \<Rightarrow> 'h world \<Rightarrow> 'h world" where
  "ticked n w = w\<lparr>tick := tick w + n\<rparr>"

definition observe :: "event \<Rightarrow> 'h world \<Rightarrow> 'h world" where
  "observe e w = w\<lparr>seen := seen w @ [e]\<rparr>"

text \<open>The ledger's methods, called with the readings of the moment.\<close>

definition st_begin :: "'h deps \<Rightarrow> collection_key \<Rightarrow> 'h world \<Rightarrow> (bool \<times> err option) \<times> 'h world" where
  "st_begin d key w =
     (let t = tick w; (r, fs) = fs_begin (d_io d t) (d_ctx d t) (d_now d t) key hours_24 (fs_of w)
      in (r, ticked 1 (w\<lparr>fs_of := fs\<rparr>)))"

definition st_end :: "'h deps \<Rightarrow> collection_key \<Rightarrow> status \<Rightarrow> string \<Rightarrow> 'h world \<Rightarrow> 'h world" where
  "st_end d key st note w =
     (let t = tick w
      in ticked 2 (w\<lparr>fs_of := snd (fs_end (d_io d t) (d_ctx d t) (d_now d t) (d_now d (t + 1)) key st note (fs_of w))\<rparr>))"

definition st_drop :: "'h deps \<Rightarrow> collection_key \<Rightarrow> 'h world \<Rightarrow> 'h world" where
  "st_drop d key w =
     (let t = tick w in ticked 1 (w\<lparr>fs_of := snd (fs_drop (d_io d t) (d_ctx d t) key (fs_of w))\<rparr>))"

definition st_mark_completed ::
  "'h deps \<Rightarrow> collection_key \<Rightarrow> file_identity \<Rightarrow> nat \<Rightarrow> 'h world \<Rightarrow> unit res \<times> 'h world" where
  "st_mark_completed d key file n w =
     (let t = tick w; (r, fs) = fs_mark_completed (d_io d t) (d_ctx d t) (d_now d t) key file n (fs_of w)
      in (r, ticked 1 (w\<lparr>fs_of := fs\<rparr>)))"

definition st_mark_failed ::
  "'h deps \<Rightarrow> collection_key \<Rightarrow> file_identity \<Rightarrow> string \<Rightarrow> 'h world \<Rightarrow> 'h world" where
  "st_mark_failed d key file msg w =
     (let t = tick w
      in ticked 1 (w\<lparr>fs_of := snd (fs_mark_failed (d_io d t) (d_ctx d t) (d_now d t) key file msg (fs_of w))\<rparr>))"

section \<open>One file\<close>

text \<open>Every failure of a file is recorded, best effort, in the failure ledger.\<close>

definition fail_file ::
  "'h deps \<Rightarrow> collection_key \<Rightarrow> file_identity \<Rightarrow> file_result \<Rightarrow> string \<Rightarrow> 'h world \<Rightarrow> file_result \<times> 'h world" where
  "fail_file d key file fr msg w =
     (fr\<lparr>fr_status := StatusFailed, fr_error := msg\<rparr>, st_mark_failed d key file msg w)"

text \<open>The local function \<open>write\<close>: its variables are the sequence, the pending rows and the count.\<close>

type_synonym progress = "nat \<times> row list \<times> nat"

definition write_batch ::
  "'h deps \<Rightarrow> collection_key \<Rightarrow> file_identity \<Rightarrow> metadata \<Rightarrow> string list \<Rightarrow> progress \<Rightarrow> 'h world \<Rightarrow>
     err option \<times> progress \<times> 'h world" where
  "write_batch d key file md header p w =
     (let (sq, pend, n) = p in
      if length pend = 0 then (None, p, w)
      else
       (let t = tick w;
            b = \<lparr>b_key = key, b_file = file, b_metadata = md_clone md, b_records = pend,
                 b_sequence = sq + 1, b_header = header, b_created = d_now d t\<rparr>;
            (r, h) = d_write d t (d_ctx d t) b (store_of w);
            w1 = ticked 1 (w\<lparr>store_of := h\<rparr>)
        in case r of Inl e \<Rightarrow> (Some e, (sq + 1, pend, n), w1)
                   | Inr _ \<Rightarrow> (None, (sq + 1, [], n + length pend), w1)))"

text \<open>The loop over the stream's rows.\<close>

fun feed ::
  "'h deps \<Rightarrow> collection_key \<Rightarrow> file_identity \<Rightarrow> metadata \<Rightarrow> string list \<Rightarrow> row list \<Rightarrow> progress \<Rightarrow> 'h world \<Rightarrow>
     err option \<times> progress \<times> 'h world" where
  "feed d key file md header [] p w = (None, p, w)"
| "feed d key file md header (r # rs) (sq, pend, n) w =
     (if int (length (pend @ [r])) \<ge> batch_size d then
        (case write_batch d key file md header (sq, pend @ [r], n) w of
           (Some e, p, w1) \<Rightarrow> (Some e, p, w1)
         | (None, p, w1) \<Rightarrow> feed d key file md header rs p w1)
      else feed d key file md header rs (sq, pend @ [r], n) w)"

definition source_file_text :: "'h deps \<Rightarrow> file_identity \<Rightarrow> err \<Rightarrow> string" where
  "source_file_text d file e =
     ''source '' @ d_source d @ '' file '' @ go_quote (f_name file) @ '': '' @ err_text e"

text \<open>From the first row to the end of the file: rows, last batch, backup, completion mark.\<close>

definition finish_file ::
  "'h deps \<Rightarrow> collection_key \<Rightarrow> file_identity \<Rightarrow> file_result \<Rightarrow> nat \<Rightarrow> 'h world \<Rightarrow> file_result \<times> 'h world" where
  "finish_file d key file fr n w =
     (let fr1 = fr\<lparr>fr_records := n\<rparr> in
      case (case d_backup d of None \<Rightarrow> None | Some bk \<Rightarrow> bk (tick w) key file) of
        Some e \<Rightarrow> fail_file d key file fr1 (err_text e) (ticked 1 w)
      | None \<Rightarrow>
          (case st_mark_completed d key file n (ticked 1 w) of
             (Inl e, w1) \<Rightarrow> fail_file d key file fr1 (err_text e) w1
           | (Inr _, w1) \<Rightarrow> (fr1\<lparr>fr_status := StatusSucceeded\<rparr>, w1)))"

definition store_file ::
  "'h deps \<Rightarrow> collection_key \<Rightarrow> file_identity \<Rightarrow> file_result \<Rightarrow> metadata \<Rightarrow> parsed \<Rightarrow> 'h world \<Rightarrow>
     file_result \<times> 'h world" where
  "store_file d key file fr md doc w =
     (case feed d key file md (p_header doc) (p_rows doc) (0, [], 0) w of
        (Some e, (sq, pend, n), w1) \<Rightarrow> fail_file d key file (fr\<lparr>fr_records := n\<rparr>) (err_text e) w1
      | (None, p, w1) \<Rightarrow>
          (case write_batch d key file md (p_header doc) p w1 of
             (we, (sq, pend, n), w2) \<Rightarrow>
               (case p_end doc of
                  Some e \<Rightarrow> fail_file d key file (fr\<lparr>fr_records := n\<rparr>) (source_file_text d file e) w2
                | None \<Rightarrow>
                    (case we of
                       Some e \<Rightarrow> fail_file d key file (fr\<lparr>fr_records := n\<rparr>) (err_text e) w2
                     | None \<Rightarrow> finish_file d key file fr n w2))))"

definition collect_file ::
  "'h deps \<Rightarrow> collection_key \<Rightarrow> file_identity \<Rightarrow> 'h world \<Rightarrow> file_result \<times> 'h world" where
  "collect_file d key file w =
     (let t = tick w; w0 = ticked 4 w;
          fr = \<lparr>fr_file = file, fr_metadata = [], fr_status = StatusPending, fr_records = 0, fr_error = ''''\<rparr>
      in case mem_file_completed (d_ctx d t) key file (mem (fs_of w)) of
           Inl e \<Rightarrow> fail_file d key file fr (err_text e) w0
         | Inr True \<Rightarrow> (fr\<lparr>fr_status := StatusSucceeded\<rparr>, w0)
         | Inr False \<Rightarrow>
             (let w1 = observe (EvFileStarted key file) w0 in
              case (case d_extract d of None \<Rightarrow> Inr new_metadata | Some ex \<Rightarrow> ex (t + 1) file) of
                Inl e \<Rightarrow> fail_file d key file fr (err_text e) w1
              | Inr md0 \<Rightarrow>
                  (let md1 = overlay_metadata md0 (d_source_md d);
                       fr1 = fr\<lparr>fr_metadata := md_clone md1\<rparr>
                   in case d_read d (t + 2) file of
                        Some e \<Rightarrow> fail_file d key file fr1 (err_text e) w1
                      | None \<Rightarrow>
                          (case d_parse d (t + 3) file of
                             Inl e \<Rightarrow> fail_file d key file fr1 (source_file_text d file e) w1
                           | Inr doc \<Rightarrow>
                               (let md2 = overlay_metadata (merge_document md1 (p_head doc)) (d_source_md d)
                                in store_file d key file (fr1\<lparr>fr_metadata := md_clone md2\<rparr>) md2 doc w1)))))"

definition collect_file_tracked ::
  "'h deps \<Rightarrow> collection_key \<Rightarrow> file_identity \<Rightarrow> 'h world \<Rightarrow> file_result \<times> 'h world" where
  "collect_file_tracked d key file w =
     (let (fr, w1) = collect_file d key file w in (fr, observe (EvFileDone key fr) w1))"

section \<open>One source and date\<close>

text \<open>
  The serial loop: the context is asked before each file. The result is its error when it is
  cancelled, the results so far, the texts of the failures and the number of rows.
\<close>

fun collect_files ::
  "'h deps \<Rightarrow> collection_key \<Rightarrow> file_identity list \<Rightarrow> 'h world \<Rightarrow>
     err option \<times> file_result list \<times> string list \<times> nat \<times> 'h world" where
  "collect_files d key [] w = (None, [], [], 0, w)"
| "collect_files d key (file # rest) w =
     (case d_ctx d (tick w) of
        Some e \<Rightarrow> (Some e, [], [], 0, ticked 1 w)
      | None \<Rightarrow>
          (let (fr, w1) = collect_file_tracked d key file (ticked 1 w);
               (c, frs, fails, n, w2) = collect_files d key rest w1
           in (c, fr # frs,
               if fr_status fr = StatusFailed then (f_name file @ '': '' @ fr_error fr) # fails else fails,
               if fr_status fr = StatusFailed then n else fr_records fr + n, w2)))"

definition join_lines :: "string list \<Rightarrow> string" where
  "join_lines ts = (case ts of [] \<Rightarrow> '''' | t # us \<Rightarrow> t @ concat (map (\<lambda>u. CHR 0x0A # u) us))"

text \<open>The end of a date whose files were all visited: lines after the loops.\<close>

definition end_collection ::
  "'h deps \<Rightarrow> collection_key \<Rightarrow> collection_result \<Rightarrow> string list \<Rightarrow> 'h world \<Rightarrow> collection_result \<times> 'h world" where
  "end_collection d key res fails w =
     (let ended = d_now d (tick w); w1 = ticked 1 w;
          res1 = res\<lparr>cr_ended := ended, cr_duration := time_sub ended (cr_started res)\<rparr>
      in if fails \<noteq> [] then
           (res1\<lparr>cr_status := StatusFailed, cr_error := join_lines fails\<rparr>, st_end d key StatusFailed (join_lines fails) w1)
         else (res1\<lparr>cr_status := StatusSucceeded\<rparr>, st_end d key StatusSucceeded '''' w1))"

definition collect_one :: "'h deps \<Rightarrow> collection_key \<Rightarrow> 'h world \<Rightarrow> collection_result option \<times> 'h world" where
  "collect_one d key w =
     (let t = tick w; w0 = ticked 2 w;
          res = \<lparr>cr_key = key, cr_started = d_now d t, cr_ended = 0, cr_duration = 0, cr_status = StatusRunning, cr_error = '''',
                 cr_files = [], cr_records = 0\<rparr>
      in case d_list d (t + 1) key of
           Inl e \<Rightarrow>
             if err_is (d_platform d) e err_not_found then
               (Some (res\<lparr>cr_status := StatusSkipped, cr_error := ''no data for this date''\<rparr>), st_drop d key w0)
             else if err_is (d_platform d) e err_file_unstable then
               (Some (res\<lparr>cr_status := StatusPending, cr_error := ''files inside stable window: '' @ err_text e\<rparr>), w0)
             else
               (case st_begin d key w0 of
                  ((ok, Some be), w1) \<Rightarrow>
                    (Some (res\<lparr>cr_status := StatusFailed, cr_error := ''begin state: '' @ err_text be\<rparr>), w1)
                | ((ok, None), w1) \<Rightarrow>
                    (Some (res\<lparr>cr_status := StatusFailed, cr_error := err_text e\<rparr>),
                     if ok then st_end d key StatusFailed (err_text e) w1 else w1))
         | Inr [] \<Rightarrow>
             (Some (res\<lparr>cr_status := StatusSkipped, cr_error := ''no files matched''\<rparr>),
              if mem_status_of key (mem (fs_of w0)) \<in> {Some StatusSkipped, Some StatusPending}
              then st_drop d key w0 else w0)
         | Inr (f # fs) \<Rightarrow>
             (case st_begin d key w0 of
                ((ok, Some be), w1) \<Rightarrow>
                  (Some (res\<lparr>cr_status := StatusFailed, cr_error := ''begin state: '' @ err_text be\<rparr>), w1)
              | ((False, None), w1) \<Rightarrow> (None, w1)
              | ((True, None), w1) \<Rightarrow>
                  (let (c, frs, fails, n, w2) = collect_files d key (f # fs) (observe (EvCollectionStarted key) w1);
                       res1 = res\<lparr>cr_files := frs, cr_records := n\<rparr>
                   in case c of
                        Some e \<Rightarrow>
                          (Some (res1\<lparr>cr_status := StatusFailed, cr_error := err_text e\<rparr>),
                           st_end d key StatusFailed (err_text e) w2)
                      | None \<Rightarrow>
                          (let (res2, w3) = end_collection d key res1 fails w2 in (Some res2, w3)))))"

section \<open>One trigger\<close>

text \<open>The loop over the planned keys; \<open>first\<close> is \<open>i = 0\<close>.\<close>

fun collect_keys ::
  "'h deps \<Rightarrow> bool \<Rightarrow> collection_key list \<Rightarrow> 'h world \<Rightarrow>
     err option \<times> collection_result list \<times> string list \<times> 'h world" where
  "collect_keys d first [] w = (None, [], [], w)"
| "collect_keys d first (key # rest) w =
     (case d_ctx d (tick w) of
        Some e \<Rightarrow> (Some e, [], [], ticked 1 w)
      | None \<Rightarrow>
          (let w1 = ticked 2 w in
           if \<not> first \<and> d_host d \<noteq> '''' \<and> \<not> d_reachable d (tick w + 1) then (None, [], [], w1)
           else
             (let (r, w2) = collect_one d key w1 in
              case r of
                None \<Rightarrow> collect_keys d False rest w2
              | Some res \<Rightarrow>
                  (let (c, rs, fails, w3) = collect_keys d False rest (observe (EvCollectionDone res) w2)
                   in (c, res # rs,
                       if cr_status res = StatusFailed
                       then (''collection '' @ key_string key @ '' failed: '' @ cr_error res) # fails else fails,
                       w3)))))"

text \<open>The planned keys from the source's first date on, with the target, in calendar order.\<close>

definition trigger_keys :: "'h deps \<Rightarrow> collection_date \<Rightarrow> collection_key list \<Rightarrow> collection_key list" where
  "trigger_keys d target keys0 =
     (let keys1 = (if \<not> is_zero_date (d_since d)
                   then filter (\<lambda>k. \<not> date_before (k_date k) (d_since d)) keys0 else keys0);
          keys2 = (if list_ex (\<lambda>k. date_equal (k_date k) target) keys1 then keys1
                   else keys1 @ [mk_key (d_source d) target])
      in sort_key k_date keys2)"

definition handle :: "'h deps \<Rightarrow> collection_date option \<Rightarrow> 'h world \<Rightarrow>
     (collection_result list \<times> err option) \<times> 'h world" where
  "handle d req_dt w =
     (let t = tick w; w0 = ticked 3 w in
      case resolve_policy (d_policy d) (d_zone d) (d_now d t) of
        Inl e \<Rightarrow> (([], Some e), w0)
      | Inr target0 \<Rightarrow>
          (let target = (case req_dt of None \<Rightarrow> target0 | Some x \<Rightarrow> x) in
           case plan (d_catchup d) (d_ctx d (t + 1)) (d_ctx d (t + 2)) (d_now d (t + 1)) (d_source d) target
                  (mem (fs_of w)) of
             Inl e \<Rightarrow> (([], Some e), w0)
           | Inr keys0 \<Rightarrow>
               (if \<not> is_zero_date (d_since d) \<and> date_before target (d_since d) then
                  (([\<lparr>cr_key = mk_key (d_source d) target, cr_started = 0, cr_ended = 0,
                      cr_duration = 0, cr_status = StatusSkipped, cr_error = ''target date is before source since'',
                      cr_files = [], cr_records = 0\<rparr>], None), w0)
                else
                  (let (c, rs, fails, w1) = collect_keys d True (trigger_keys d target keys0) w0
                   in ((rs, case c of Some e \<Rightarrow> Some e
                            | None \<Rightarrow> if fails = [] then None else Some (Wrapped (join_lines fails) [])), w1)))))"

end
