(* ===== verification/CollectorLaws.thy ===== *)
theory CollectorLaws
  imports Collector
begin

text \<open>
  Laws of the executor, for any storage that keeps the storage contract: what a file, a
  collection and a trigger do to the ledger and to the store. The invariant is that a file the
  ledger holds as completed has every row of a complete parse of it in the store.
\<close>

section \<open>The ledger's methods in the world\<close>

lemma ticked_sel [simp]:
  "fs_of (ticked n w) = fs_of w" "store_of (ticked n w) = store_of w"
  "tick (ticked n w) = tick w + n" "seen (ticked n w) = seen w"
  by (simp_all add: ticked_def)

lemma observe_sel [simp]:
  "fs_of (observe e w) = fs_of w" "store_of (observe e w) = store_of w"
  "tick (observe e w) = tick w" "seen (observe e w) = seen w @ [e]"
  by (simp_all add: observe_def)

lemma st_ledger:
  "mem (fs_of (snd (st_begin d key w))) =
     apply_op (OpBegin (d_ctx d (tick w)) (d_now d (tick w)) key hours_24) (mem (fs_of w))"
  "mem (fs_of (st_end d key st note w)) =
     apply_op (OpEnd (d_ctx d (tick w)) (d_now d (tick w)) (d_now d (tick w + 1)) key st note) (mem (fs_of w))"
  "mem (fs_of (st_drop d key w)) = apply_op (OpDrop (d_ctx d (tick w)) key) (mem (fs_of w))"
  "mem (fs_of (snd (st_mark_completed d key file n w))) =
     apply_op (OpCompleted (d_ctx d (tick w)) (d_now d (tick w)) key file n) (mem (fs_of w))"
  "mem (fs_of (st_mark_failed d key file msg w)) =
     apply_op (OpFailed (d_ctx d (tick w)) (d_now d (tick w)) key file msg) (mem (fs_of w))"
proof -
  note m = mem_fs_apply [of "d_io d (tick w)" _ "fs_of w"]
  show "mem (fs_of (snd (st_begin d key w))) =
     apply_op (OpBegin (d_ctx d (tick w)) (d_now d (tick w)) key hours_24) (mem (fs_of w))"
    unfolding m [symmetric] by (simp add: st_begin_def Let_def split: prod.split)
  show "mem (fs_of (st_end d key st note w)) =
     apply_op (OpEnd (d_ctx d (tick w)) (d_now d (tick w)) (d_now d (tick w + 1)) key st note) (mem (fs_of w))"
    unfolding m [symmetric] by (simp add: st_end_def Let_def)
  show "mem (fs_of (st_drop d key w)) = apply_op (OpDrop (d_ctx d (tick w)) key) (mem (fs_of w))"
    unfolding m [symmetric] by (simp add: st_drop_def Let_def)
  show "mem (fs_of (snd (st_mark_completed d key file n w))) =
     apply_op (OpCompleted (d_ctx d (tick w)) (d_now d (tick w)) key file n) (mem (fs_of w))"
    unfolding m [symmetric] by (simp add: st_mark_completed_def Let_def split: prod.split)
  show "mem (fs_of (st_mark_failed d key file msg w)) =
     apply_op (OpFailed (d_ctx d (tick w)) (d_now d (tick w)) key file msg) (mem (fs_of w))"
    unfolding m [symmetric] by (simp add: st_mark_failed_def Let_def)
qed

lemma st_frame [simp]:
  "store_of (snd (st_begin d key w)) = store_of w" "seen (snd (st_begin d key w)) = seen w"
  "store_of (st_end d key st note w) = store_of w" "seen (st_end d key st note w) = seen w"
  "store_of (st_drop d key w) = store_of w" "seen (st_drop d key w) = seen w"
  "store_of (snd (st_mark_completed d key file n w)) = store_of w"
  "seen (snd (st_mark_completed d key file n w)) = seen w"
  "store_of (st_mark_failed d key file msg w) = store_of w" "seen (st_mark_failed d key file msg w) = seen w"
  by (simp_all add: st_begin_def st_end_def st_drop_def st_mark_completed_def st_mark_failed_def Let_def
      split: prod.split)

lemma st_begin_result:
  "fst (fst (st_begin d key w)) = True \<longleftrightarrow>
     fst (mem_begin (d_ctx d (tick w)) (d_now d (tick w)) key hours_24 (mem (fs_of w))) = Inr True"
  by (auto simp: st_begin_def fs_begin_def Let_def save_def split: prod.splits sum.splits bool.splits option.splits)

text \<open>Only marking a file completes it.\<close>

lemma finished_only_marked:
  assumes "ledger_inv s" "mem_finished k f (apply_op op s)"
  shows "mem_finished k f s \<or> (\<exists>c now g n. op = OpCompleted c now k g n \<and> identity g = identity f)"
  using assms(2) unfolding mem_finished_iff [OF assms(1)] mem_finished_iff [OF apply_op_inv [OF assms(1)]]
  by (cases op) (auto simp: mem_defs inner_put_inner update_conv' split: option.splits if_splits)

lemma finished_identity: "identity g = identity f \<Longrightarrow> mem_finished k g s \<longleftrightarrow> mem_finished k f s"
  by (simp only: mem_finished_def mem_file_completed_def)

section \<open>A pass over a storage that keeps its contract\<close>

locale collection_pass =
  fixes d :: "'h deps"
    and stored :: "'h \<Rightarrow> string \<Rightarrow> nat \<Rightarrow> bool"
    and good :: "'h \<Rightarrow> bool"
  assumes storage: "storage_contract (d_write d t) stored good"
begin

text \<open>All rows of a complete parse of the file are in the store.\<close>

definition fully :: "file_identity \<Rightarrow> 'h \<Rightarrow> bool" where
  "fully f h \<longleftrightarrow> (\<exists>t g doc. identity g = identity f \<and> d_parse d t g = Inr doc \<and> p_end doc = None \<and>
     (\<forall>r \<in> set (p_rows doc). stored h (identity f) (row_number r)))"

definition covered :: "'h world \<Rightarrow> bool" where
  "covered w \<longleftrightarrow> ledger_inv (mem (fs_of w)) \<and> good (store_of w) \<and>
     (\<forall>k f. mem_finished k f (mem (fs_of w)) \<longrightarrow> fully f (store_of w))"

definition grows :: "'h \<Rightarrow> 'h \<Rightarrow> bool" where
  "grows h h' \<longleftrightarrow> (good h \<longrightarrow> good h' \<and> (\<forall>fid n. stored h fid n \<longrightarrow> stored h' fid n))"

lemma grows_refl [simp]: "grows h h"
  by (simp add: grows_def)

lemma grows_trans: "grows h h1 \<Longrightarrow> grows h1 h2 \<Longrightarrow> grows h h2"
  by (simp add: grows_def)

lemma grows_write: "grows h (snd (d_write d t c b h))"
  using storage_contract.write_good [OF storage] storage_contract.write_keeps [OF storage]
  by (simp add: grows_def)

lemma fully_grows: "grows h h' \<Longrightarrow> good h \<Longrightarrow> fully f h \<Longrightarrow> fully f h'"
  unfolding grows_def fully_def by blast

text \<open>A step that only writes to the store keeps the invariant.\<close>

lemma covered_grows:
  "covered w \<Longrightarrow> mem (fs_of w') = mem (fs_of w) \<Longrightarrow> grows (store_of w) (store_of w') \<Longrightarrow> covered w'"
  unfolding covered_def using fully_grows by (metis grows_def)

text \<open>A ledger operation keeps it when it marks only a stored file.\<close>

lemma covered_op:
  assumes "covered w" "mem (fs_of w') = apply_op op (mem (fs_of w))" "store_of w' = store_of w"
    and "\<And>c now k g n. op = OpCompleted c now k g n \<Longrightarrow> fully g (store_of w)"
  shows "covered w'"
proof -
  have inv: "ledger_inv (mem (fs_of w))" using assms(1) by (simp add: covered_def)
  have "fully f (store_of w)" if "mem_finished k f (apply_op op (mem (fs_of w)))" for k f
    using finished_only_marked [OF inv that] assms(1,4) by (auto simp: covered_def fully_def)
  with assms(1) show ?thesis
    unfolding covered_def assms(2,3) by (simp add: apply_op_inv [OF inv])
qed

lemma covered_st:
  assumes "covered w"
  shows "covered (snd (st_begin d key w))" "covered (st_end d key st note w)" "covered (st_drop d key w)"
    "covered (st_mark_failed d key file msg w)"
    "fully file (store_of w) \<Longrightarrow> covered (snd (st_mark_completed d key file n w))"
  by (rule covered_op [OF assms st_ledger(1)] covered_op [OF assms st_ledger(2)] covered_op [OF assms st_ledger(3)]
      covered_op [OF assms st_ledger(4)] covered_op [OF assms st_ledger(5)]; simp)+

lemma covered_frame [simp]: "covered (ticked n w) \<longleftrightarrow> covered w" "covered (observe e w) \<longleftrightarrow> covered w"
  by (simp_all add: covered_def)

subsection \<open>Writing a file's rows\<close>

lemma write_batch_spec:
  assumes "write_batch d key file md header (sq, pend, n) w = (e, (sq', pend', n'), w')"
  shows "fs_of w' = fs_of w" "grows (store_of w) (store_of w')"
    "e = None \<Longrightarrow> good (store_of w) \<Longrightarrow>
       pend' = [] \<and> n' = n + length pend \<and> (\<forall>r \<in> set pend. stored (store_of w') (identity file) (row_number r))"
proof -
  show "fs_of w' = fs_of w" "grows (store_of w) (store_of w')"
    using assms grows_write by (auto simp: write_batch_def Let_def split: if_splits prod.splits sum.splits)
      (metis snd_conv)+
  show "pend' = [] \<and> n' = n + length pend \<and> (\<forall>r \<in> set pend. stored (store_of w') (identity file) (row_number r))"
    if "e = None" "good (store_of w)"
  proof (cases "pend = []")
    case True
    with assms show ?thesis by (simp add: write_batch_def)
  next
    case False
    let ?b = "\<lparr>b_key = key, b_file = file, b_metadata = md_clone md, b_records = pend, b_sequence = sq + 1,
       b_header = header, b_created = d_now d (tick w)\<rparr>"
    let ?r = "d_write d (tick w) (d_ctx d (tick w)) ?b (store_of w)"
    have r: "fst ?r = Inr ()" "store_of w' = snd ?r" "pend' = []" "n' = n + length pend"
      using assms that False by (auto simp: write_batch_def Let_def split: prod.splits sum.splits)
    have "stored (snd ?r) (identity (b_file ?b)) (row_number x)" if "x \<in> set (b_records ?b)" for x
      by (rule storage_contract.write_stores [OF storage]) (use that r \<open>good (store_of w)\<close> in simp_all)
    with r show ?thesis by simp
  qed
qed

lemma feed_spec:
  assumes "feed d key file md header rows (sq, pend, n) w = (e, (sq', pend', n'), w')"
  shows "fs_of w' = fs_of w \<and> grows (store_of w) (store_of w') \<and>
    (e = None \<and> good (store_of w) \<longrightarrow> n' + length pend' = n + length pend + length rows \<and>
       (\<forall>r \<in> set pend \<union> set rows. r \<in> set pend' \<or> stored (store_of w') (identity file) (row_number r)))"
  using assms
proof (induction rows arbitrary: sq pend n w)
  case (Cons r rs)
  show ?case
  proof (cases "int (length (pend @ [r])) \<ge> batch_size d")
    case False
    from Cons.IH [of sq "pend @ [r]" n w] Cons.prems False show ?thesis by auto
  next
    case True
    obtain e1 sq1 pend1 n1 w1 where wb:
      "write_batch d key file md header (sq, pend @ [r], n) w = (e1, (sq1, pend1, n1), w1)" by (metis prod_cases3)
    note spec = write_batch_spec [OF wb]
    show ?thesis
    proof (cases e1)
      case (Some x)
      with Cons.prems True wb spec show ?thesis by auto
    next
      case None
      with Cons.prems True wb have "feed d key file md header rs (sq1, pend1, n1) w1 = (e, (sq', pend', n'), w')" by simp
      note IH = Cons.IH [OF this]
      have "good (store_of w) \<Longrightarrow> good (store_of w1)" using spec(2) by (simp add: grows_def)
      with IH spec None grows_trans [OF spec(2), of "store_of w'"] show ?thesis
        unfolding grows_def by auto
    qed
  qed
qed simp

subsection \<open>A file, a collection, a trigger\<close>

lemma covered_fail: "covered w \<Longrightarrow> covered (snd (fail_file d key file fr msg w))"
  by (simp add: fail_file_def covered_st)

lemma covered_finish:
  assumes "covered w" "fully file (store_of w)"
  shows "covered (snd (finish_file d key file fr n w))"
proof -
  have "covered (snd (st_mark_completed d key file n (ticked 1 w)))"
    using assms by (intro covered_st(5)) simp_all
  with assms(1) show ?thesis
    by (auto simp: finish_file_def Let_def case_prod_beta intro!: covered_fail split: option.split sum.split)
qed

lemma covered_store:
  assumes "covered w" "d_parse d t file = Inr doc"
  shows "covered (snd (store_file d key file fr md doc w))"
proof -
  have good: "good (store_of w)" using assms(1) by (simp add: covered_def)
  obtain e sq pend n w1 where f:
    "feed d key file md (p_header doc) (p_rows doc) (0, [], 0) w = (e, (sq, pend, n), w1)" by (metis prod_cases3)
  obtain e2 sq2 pend2 n2 w2 where b:
    "write_batch d key file md (p_header doc) (sq, pend, n) w1 = (e2, (sq2, pend2, n2), w2)" by (metis prod_cases3)
  note fs = feed_spec [OF f] and bs = write_batch_spec [OF b]
  have good1: "good (store_of w1)" using fs good by (simp add: grows_def)
  have w1: "covered w1" using covered_grows [OF assms(1)] fs by simp
  have w2: "covered w2" using covered_grows [OF w1] bs by simp
  have "fully file (store_of w2)" if "e = None" "e2 = None" "p_end doc = None"
  proof -
    have "stored (store_of w2) (identity file) (row_number r)" if "r \<in> set (p_rows doc)" for r
      using fs bs good good1 \<open>e = None\<close> \<open>e2 = None\<close> that by (fastforce simp: grows_def)
    with assms(2) that show ?thesis unfolding fully_def by blast
  qed
  with w1 w2 show ?thesis
    by (auto simp: store_file_def f b intro!: covered_fail covered_finish split: option.split)
qed

lemma covered_file: "covered w \<Longrightarrow> covered (snd (collect_file d key file w))"
  by (auto simp: collect_file_def Let_def intro!: covered_fail covered_store split: option.split sum.split bool.split)

lemma covered_tracked: "covered w \<Longrightarrow> covered (snd (collect_file_tracked d key file w))"
  by (simp add: collect_file_tracked_def Let_def case_prod_beta covered_file)

lemma covered_files: "covered w \<Longrightarrow> covered (snd (snd (snd (snd (collect_files d key fs w)))))"
proof (induction fs arbitrary: w)
  case (Cons f fs)
  have "covered (snd (collect_file_tracked d key f (ticked 1 w)))" using Cons.prems by (simp add: covered_tracked)
  from Cons.IH [OF this] Cons.prems show ?case by (simp add: Let_def case_prod_beta split: option.split)
qed simp

lemma covered_one: "covered w \<Longrightarrow> covered (snd (collect_one d key w))"
proof -
  assume w: "covered w"
  have b: "covered (snd (st_begin d key (ticked 2 w)))" using w by (intro covered_st) simp
  then show ?thesis
    using w covered_files [of "observe (EvCollectionStarted key) (snd (st_begin d key (ticked 2 w)))"]
    by (auto simp: collect_one_def end_collection_def Let_def case_prod_beta simp del: collect_files.simps intro!: covered_st
        split: sum.split list.split option.split bool.split)
qed

lemma covered_keys: "covered w \<Longrightarrow> covered (snd (snd (snd (collect_keys d first ks w))))"
proof (induction ks arbitrary: first w)
  case (Cons k ks)
  have o: "covered (snd (collect_one d k (ticked 2 w)))" using Cons.prems by (simp add: covered_one)
  from Cons.IH [OF o] Cons.IH [of "observe e (snd (collect_one d k (ticked 2 w)))" for e] o Cons.prems show ?case
    by (simp add: Let_def case_prod_beta split: option.split)
qed simp

lemma covered_handle: "covered w \<Longrightarrow> covered (snd (handle d q w))"
  by (simp add: handle_def Let_def case_prod_beta covered_keys split: sum.split)

lemma covered_passes: "covered w \<Longrightarrow> covered (fold (\<lambda>q w. snd (handle d q w)) qs w)"
  by (induction qs arbitrary: w) (auto intro: covered_handle)

end

definition with_memory :: "mem_store deps \<Rightarrow> mem_store deps" where
  "with_memory d = d\<lparr>d_write := \<lambda>t. mem_write (d_now d t)\<rparr>"

interpretation memory_pass: collection_pass "with_memory d" ms_stored ms_good for d
  by (rule collection_pass.intro) (simp add: with_memory_def mem_storage.storage_contract_axioms)

section \<open>What the ledger sees of a pass\<close>

text \<open>
  The ledger after a part of the executor is the ledger before after a sequence of operations
  on one key; while files are collected, none of them begins, ends or drops the key.
\<close>

fun file_op :: "collection_key \<Rightarrow> ledger_op \<Rightarrow> bool" where
  "file_op k (OpCompleted c now k' f n) \<longleftrightarrow> k' = k"
| "file_op k (OpFailed c now k' f msg) \<longleftrightarrow> k' = k"
| "file_op k _ \<longleftrightarrow> False"

definition only_ops :: "(ledger_op \<Rightarrow> bool) \<Rightarrow> 'h world \<Rightarrow> 'h world \<Rightarrow> bool" where
  "only_ops P w w' \<longleftrightarrow>
     (\<exists>ops. mem (fs_of w') = fold apply_op ops (mem (fs_of w)) \<and> list_all P ops)"

lemma only_opsI: "mem (fs_of w') = fold apply_op ops (mem (fs_of w)) \<Longrightarrow> list_all P ops \<Longrightarrow> only_ops P w w'"
  by (auto simp: only_ops_def)

lemma only_ops_same: "mem (fs_of w') = mem (fs_of w) \<Longrightarrow> only_ops P w w'"
  by (rule only_opsI [of _ "[]"]) simp_all

lemma only_ops_one: "mem (fs_of w') = apply_op op (mem (fs_of w)) \<Longrightarrow> P op \<Longrightarrow> only_ops P w w'"
  by (rule only_opsI [of _ "[op]"]) simp_all

lemma only_ops_trans: "only_ops P w w1 \<Longrightarrow> only_ops P w1 w2 \<Longrightarrow> only_ops P w w2"
  unfolding only_ops_def by (metis comp_apply fold_append list_all_append)

lemma only_ops_mono: "only_ops P w w' \<Longrightarrow> (\<And>op. P op \<Longrightarrow> Q op) \<Longrightarrow> only_ops Q w w'"
  unfolding only_ops_def using list.pred_mono_strong by blast

lemma only_ops_ticked [simp]:
  "only_ops P (ticked n w) w' \<longleftrightarrow> only_ops P w w'" "only_ops P w (ticked n w') \<longleftrightarrow> only_ops P w w'"
  "only_ops P (observe e w) w' \<longleftrightarrow> only_ops P w w'" "only_ops P w (observe e w') \<longleftrightarrow> only_ops P w w'"
  by (simp_all add: only_ops_def)

lemma only_ops_refl [simp]: "only_ops P w w"
  by (rule only_ops_same) simp

lemma ops_st:
  "only_ops (\<lambda>op. op_key op = Some key) w (snd (st_begin d key w))"
  "only_ops (\<lambda>op. op_key op = Some key) w (st_end d key st note w)"
  "only_ops (\<lambda>op. op_key op = Some key) w (st_drop d key w)"
  "only_ops (file_op key) w (snd (st_mark_completed d key file n w))"
  "only_ops (file_op key) w (st_mark_failed d key file msg w)"
  by (rule only_ops_one [OF st_ledger(1)] only_ops_one [OF st_ledger(2)] only_ops_one [OF st_ledger(3)]
      only_ops_one [OF st_ledger(4)] only_ops_one [OF st_ledger(5)]; simp)+

lemma ops_write_batch: "fs_of (snd (snd (write_batch d key file md header p w))) = fs_of w"
  by (cases p) (simp add: write_batch_def Let_def case_prod_beta split: sum.split)

lemma ops_feed: "fs_of (snd (snd (feed d key file md header rows p w))) = fs_of w"
proof (induction rows arbitrary: p w)
  case (Cons r rs)
  obtain sq pend n where p: "p = (sq, pend, n)" by (metis prod_cases3)
  show ?case
    using Cons [of "fst (snd (write_batch d key file md header (sq, pend @ [r], n) w))"
        "snd (snd (write_batch d key file md header (sq, pend @ [r], n) w))"]
      Cons [of "(sq, pend @ [r], n)" w]
      ops_write_batch [of d key "file" md header "(sq, pend @ [r], n)" w]
    by (simp add: p case_prod_beta split: option.split)
qed (cases p, simp)

lemma ops_fail: "only_ops (file_op key) w0 w \<Longrightarrow> only_ops (file_op key) w0 (snd (fail_file d key file fr msg w))"
  using only_ops_trans [OF _ ops_st(5)] by (simp add: fail_file_def)

lemma ops_finish: "only_ops (file_op key) w (snd (finish_file d key file fr n w))"
  using ops_st(4) [of key "ticked 1 w" d "file" n]
  by (auto simp: finish_file_def Let_def case_prod_beta intro!: ops_fail split: option.split sum.split)

lemma ops_store: "only_ops (file_op key) w (snd (store_file d key file fr md doc w))"
proof -
  let ?f = "feed d key file md (p_header doc) (p_rows doc) (0, [], 0) w"
  let ?b = "write_batch d key file md (p_header doc) (fst (snd ?f)) (snd (snd ?f))"
  have f: "only_ops (file_op key) w (snd (snd ?f))" by (rule only_ops_same) (simp add: ops_feed)
  have b: "only_ops (file_op key) w (snd (snd ?b))" by (rule only_ops_same) (simp add: ops_feed ops_write_batch)
  from f b only_ops_trans [OF b ops_finish] show ?thesis
    by (auto simp: store_file_def case_prod_beta intro!: ops_fail split: option.split)
qed

lemma ops_file: "only_ops (file_op key) w (snd (collect_file d key file w))"
  using ops_store [of key "observe (EvFileStarted key file) (ticked 4 w)" d "file"]
  by (auto simp: collect_file_def Let_def intro!: ops_fail split: option.split sum.split bool.split)

lemma ops_tracked: "only_ops (file_op key) w (snd (collect_file_tracked d key file w))"
  by (simp add: collect_file_tracked_def case_prod_beta ops_file)

lemma ops_files: "only_ops (file_op key) w (snd (snd (snd (snd (collect_files d key fs w)))))"
proof (induction fs arbitrary: w)
  case (Cons f fs)
  from only_ops_trans [OF ops_tracked [of key "ticked 1 w" d f] Cons] show ?case
    by (simp add: Let_def case_prod_beta split: option.split)
qed simp

end
