(* ===== verification/CollectorProgress.thy ===== *)
theory CollectorProgress
  imports CollectorLaws
begin

text \<open>
  Progress of the executor: when nothing fails, a file is collected, a date succeeds and the
  ledger says so.
\<close>

section \<open>A plant in which nothing fails\<close>

definition healthy :: "'h deps \<Rightarrow> ('h \<Rightarrow> bool) \<Rightarrow> bool" where
  "healthy d accepts \<longleftrightarrow>
     (\<forall>t. d_ctx d t = None \<and> d_io d t = None) \<and>
     (\<forall>ex t f. d_extract d = Some ex \<longrightarrow> (\<exists>md. ex t f = Inr md)) \<and>
     (\<forall>t f. d_read d t f = None \<and> (\<exists>doc. d_parse d t f = Inr doc \<and> p_end doc = None)) \<and>
     (\<forall>t b h. accepts h \<longrightarrow> fst (d_write d t None b h) = Inr () \<and> accepts (snd (d_write d t None b h))) \<and>
     (\<forall>bk t k f. d_backup d = Some bk \<longrightarrow> bk t k f = None)"

lemma healthyD:
  assumes "healthy d accepts"
  shows "d_ctx d t = None" "d_io d t = None" "d_read d t f = None"
  using assms unfolding healthy_def by blast+

lemma healthy_parse: "healthy d accepts \<Longrightarrow> \<exists>doc. d_parse d t f = Inr doc \<and> p_end doc = None"
  unfolding healthy_def by blast

lemma healthy_extract: "healthy d accepts \<Longrightarrow> d_extract d = Some ex \<Longrightarrow> \<exists>md. ex t f = Inr md"
  unfolding healthy_def by blast

lemma healthy_write:
  "healthy d accepts \<Longrightarrow> accepts h \<Longrightarrow> \<exists>h'. d_write d t None b h = (Inr (), h') \<and> accepts h'"
  unfolding healthy_def by (metis prod.collapse)

lemma healthy_backup: "healthy d accepts \<Longrightarrow> (case d_backup d of None \<Rightarrow> None | Some bk \<Rightarrow> bk t k f) = None"
  unfolding healthy_def by (cases "d_backup d") simp_all

lemma healthy_write_batch:
  assumes "healthy d accepts" "accepts (store_of w)"
  shows "\<exists>p' w'. write_batch d key file md header p w = (None, p', w') \<and> accepts (store_of w') \<and>
    fs_of w' = fs_of w \<and> fst (snd p') = []"
proof -
  obtain sq pend n where p: "p = (sq, pend, n)" by (metis prod_cases3)
  let ?b = "\<lparr>b_key = key, b_file = file, b_metadata = md_clone md, b_records = pend, b_sequence = sq + 1,
     b_header = header, b_created = d_now d (tick w)\<rparr>"
  obtain h' where "d_write d (tick w) None ?b (store_of w) = (Inr (), h')" "accepts h'"
    using healthy_write [OF assms] by blast
  with assms(2) show ?thesis
    by (cases "pend = []") (simp_all add: p write_batch_def Let_def healthyD [OF assms(1)])
qed

lemma healthy_feed:
  assumes "healthy d accepts" "accepts (store_of w)"
  shows "\<exists>p' w'. feed d key file md header rows p w = (None, p', w') \<and> accepts (store_of w') \<and> fs_of w' = fs_of w"
  using assms(2)
proof (induction rows arbitrary: p w)
  case (Cons r rs)
  obtain sq pend n where p: "p = (sq, pend, n)" by (metis prod_cases3)
  from healthy_write_batch [OF assms(1) Cons.prems, of key "file" md header "(sq, pend @ [r], n)"]
  obtain p1 w1 where b: "write_batch d key file md header (sq, pend @ [r], n) w = (None, p1, w1)"
    "accepts (store_of w1)" "fs_of w1 = fs_of w" by blast
  from Cons.IH [OF b(2), of p1] Cons.IH [OF Cons.prems, of "(sq, pend @ [r], n)"] b show ?case
    by (simp add: p)
qed (cases p, auto)

lemma healthy_mark:
  assumes "healthy d accepts" "mem_status_of key (mem (fs_of w)) \<noteq> None"
  shows "\<exists>w'. st_mark_completed d key file n w = (Inr (), w') \<and> store_of w' = store_of w"
  using assms(2) by (auto simp: healthyD [OF assms(1)] st_mark_completed_def fs_mark_completed_def mem_mark_completed_def mem_status_of_def
      then_save_def save_def Let_def)

lemma healthy_file:
  assumes h: "healthy d accepts" and a: "accepts (store_of w)" and s: "mem_status_of key (mem (fs_of w)) \<noteq> None"
  shows "\<exists>fr w'. collect_file d key file w = (fr, w') \<and> fr_file fr = file \<and> fr_status fr = StatusSucceeded \<and>
    accepts (store_of w')"
proof (cases "mem_finished key file (mem (fs_of w))")
  case True
  with a show ?thesis by (simp add: collect_file_def mem_finished_def Let_def healthyD [OF h])
next
  case False
  have nd: "mem_file_completed None key file (mem (fs_of w)) = Inr False"
    using False by (auto simp: mem_finished_def mem_file_completed_def Let_def split: option.splits)
  obtain md0 where md0: "(case d_extract d of None \<Rightarrow> Inr new_metadata | Some ex \<Rightarrow> ex (tick w + 1) file) = Inr md0"
    using healthy_extract [OF h] by (cases "d_extract d") fastforce+
  obtain doc where doc: "d_parse d (tick w + 3) file = Inr doc" "p_end doc = None"
    using healthy_parse [OF h] by blast
  have st: "\<exists>fr' w'. store_file d key file fr md doc w0 = (fr', w') \<and> fr_file fr' = file \<and>
      fr_status fr' = StatusSucceeded \<and> accepts (store_of w')"
    if w0: "accepts (store_of w0)" "fs_of w0 = fs_of w" "fr_file fr = file" for fr md w0
  proof -
    obtain p1 w1 where f: "feed d key file md (p_header doc) (p_rows doc) (0, [], 0) w0 = (None, p1, w1)"
      "accepts (store_of w1)" "fs_of w1 = fs_of w" using healthy_feed [OF h w0(1)] w0(2) by metis
    obtain sq pend n w2 where b: "write_batch d key file md (p_header doc) p1 w1 = (None, (sq, pend, n), w2)"
      "accepts (store_of w2)" "fs_of w2 = fs_of w"
      using healthy_write_batch [OF h f(2), of key "file" md "p_header doc" p1] f(3) by (metis prod_cases3)
    from s b(3) have "mem_status_of key (mem (fs_of (ticked 1 w2))) \<noteq> None" by simp
    from healthy_mark [OF h this, of "file" n] b(2) w0(3) show ?thesis
      by (auto simp: store_file_def finish_file_def f b doc(2) healthy_backup [OF h] Let_def)
  qed
  show ?thesis
    using a by (simp add: collect_file_def Let_def nd healthyD [OF h] md0 doc(1) st del: One_nat_def)
qed

lemma file_ops_status:
  assumes "only_ops (file_op key) w w'"
  shows "mem_status_of k (mem (fs_of w')) = mem_status_of k (mem (fs_of w))"
proof -
  have one: "mem_status_of k (apply_op op s) = mem_status_of k s" if "file_op key op" for op s
    using that by (cases op) (auto simp: mem_defs mem_status_of_def split: option.split)
  have "mem_status_of k (fold apply_op ops s) = mem_status_of k s" if "list_all (file_op key) ops" for ops s
    using that by (induction ops arbitrary: s) (simp_all add: one)
  with assms show ?thesis by (auto simp: only_ops_def)
qed

lemma healthy_files:
  assumes "healthy d accepts" "accepts (store_of w)" "mem_status_of key (mem (fs_of w)) \<noteq> None"
  shows "\<exists>frs n w'. collect_files d key fs w = (None, frs, [], n, w') \<and> map fr_file frs = fs \<and>
    list_all (\<lambda>fr. fr_status fr = StatusSucceeded) frs \<and> accepts (store_of w') \<and> only_ops (file_op key) w w'"
  using assms(2,3)
proof (induction fs arbitrary: w)
  case (Cons f fs)
  obtain fr w1 where f: "collect_file d key f (ticked 1 w) = (fr, w1)" "fr_file fr = f"
    "fr_status fr = StatusSucceeded" "accepts (store_of w1)"
    using healthy_file [OF assms(1), of "ticked 1 w" key f] Cons.prems by auto
  have o: "only_ops (file_op key) w w1" using ops_file [of key "ticked 1 w" d f] f(1) by simp
  let ?w = "observe (EvFileDone key fr) w1"
  have "mem_status_of key (mem (fs_of ?w)) \<noteq> None" using file_ops_status [OF o, of key] Cons.prems by simp
  from Cons.IH [OF _ this] f obtain frs n w' where r: "collect_files d key fs ?w = (None, frs, [], n, w')"
    "map fr_file frs = fs" "list_all (\<lambda>fr. fr_status fr = StatusSucceeded) frs" "accepts (store_of w')"
    "only_ops (file_op key) w1 w'" by auto
  from only_ops_trans [OF o r(5)] r(1-4) f show ?case
    by (simp add: collect_file_tracked_def Let_def healthyD [OF assms(1)])
qed simp

text \<open>When a date may be begun: it is new, or it failed, or its lease is over, or the source appends.\<close>

definition may_begin :: "time \<Rightarrow> collection_key \<Rightarrow> ledger \<Rightarrow> bool" where
  "may_begin now key s \<longleftrightarrow> fst (mem_begin None now key hours_24 s) = Inr True"

lemma begun_status:
  "fst (mem_begin c now key lease s) = Inr True \<Longrightarrow>
     mem_status_of key (snd (mem_begin c now key lease s)) = Some StatusRunning"
  by (auto simp: mem_begin_def open_collection_def mem_status_of_def update_conv' split: option.splits if_splits)

lemma healthy_begin:
  assumes "healthy d accepts" "may_begin (d_now d (tick w)) key (mem (fs_of w))"
  shows "\<exists>w'. st_begin d key w = ((True, None), w') \<and> store_of w' = store_of w \<and> tick w' = tick w + 1 \<and>
    mem_status_of key (mem (fs_of w')) = Some StatusRunning"
  using assms(2) begun_status [of None "d_now d (tick w)" key hours_24 "mem (fs_of w)"]
  by (auto simp: healthyD [OF assms(1)] st_begin_def fs_begin_def save_def may_begin_def Let_def split: prod.splits sum.splits)

lemma healthy_one:
  assumes "healthy d accepts" "accepts (store_of w)" "d_list d (tick w + 1) key = Inr fs" "fs \<noteq> []"
    "may_begin (d_now d (tick w + 2)) key (mem (fs_of w))"
  shows "\<exists>res w'. collect_one d key w = (Some res, w') \<and> cr_key res = key \<and> cr_status res = StatusSucceeded \<and>
    cr_error res = '''' \<and> map fr_file (cr_files res) = fs \<and>
    list_all (\<lambda>fr. fr_status fr = StatusSucceeded) (cr_files res) \<and> accepts (store_of w') \<and>
    mem_status_of key (mem (fs_of w')) = Some StatusSucceeded"
proof -
  have "may_begin (d_now d (tick (ticked 2 w))) key (mem (fs_of (ticked 2 w)))" using assms(5) by simp
  from healthy_begin [OF assms(1) this] obtain w1 where b: "st_begin d key (ticked 2 w) = ((True, None), w1)"
    "store_of w1 = store_of w" "mem_status_of key (mem (fs_of w1)) = Some StatusRunning" by auto
  let ?w1 = "observe (EvCollectionStarted key) w1"
  have "accepts (store_of ?w1)" "mem_status_of key (mem (fs_of ?w1)) \<noteq> None" using b assms(2) by simp_all
  from healthy_files [OF assms(1) this, of fs] obtain frs n w2
    where f: "collect_files d key fs ?w1 = (None, frs, [], n, w2)" "map fr_file frs = fs"
      "list_all (\<lambda>fr. fr_status fr = StatusSucceeded) frs" "accepts (store_of w2)" "only_ops (file_op key) ?w1 w2"
    by blast
  have "mem_status_of key (mem (fs_of w2)) = Some StatusRunning" using file_ops_status [OF f(5)] b(3) by simp
  then have "mem_status_of key (mem (fs_of (st_end d key StatusSucceeded '''' (ticked 1 w2)))) = Some StatusSucceeded"
    by (auto simp: st_ledger mem_defs update_conv' mem_status_of_def healthyD [OF assms(1)])
  with b f assms(3,4) show ?thesis
    by (cases fs) (simp_all add: collect_one_def end_collection_def Let_def del: collect_files.simps)
qed

section \<open>A sample\<close>

definition start_world :: "nat \<Rightarrow> 'h \<Rightarrow> 'h world" where
  "start_world t h = \<lparr>fs_of = \<lparr>mem = new_memory, disk = None\<rparr>, store_of = h, tick = t, seen = []\<rparr>"

text \<open>A sample plant: one file of two rows, a batch size of one, every component healthy.\<close>

definition two_rows :: parsed where
  "two_rows = \<lparr>p_head = \<lparr>doc_metadata = [], structured = False\<rparr>, p_header = [''v''],
     p_rows = [\<lparr>row_number = 1, row_fields = [''10'']\<rparr>, \<lparr>row_number = 2, row_fields = [''20'']\<rparr>], p_end = None\<rparr>"

definition plant :: "mem_store deps" where
  "plant = \<lparr>d_source = ''line-1'', d_list = \<lambda>t k. Inr [file_a], d_extract = None, d_source_md = new_metadata,
     d_read = \<lambda>t f. None, d_parse = \<lambda>t f. Inr two_rows, d_write = \<lambda>t c b h. (Inr (), h), d_backup = None,
     d_host = '''', d_reachable = \<lambda>t. True, d_ctx = \<lambda>t. None, d_now = \<lambda>t. 1000 + int t, d_io = \<lambda>t. None,
     d_platform = Unix, d_zone = 0, d_policy = \<lparr>pol_type = ''specific'', pol_specific = day_1\<rparr>,
     d_batch_size = 1, d_catchup = 0, d_since = zero_date\<rparr>"

definition accepting :: "mem_store \<Rightarrow> bool" where
  "accepting h \<longleftrightarrow> ms_fail_after h \<le> 0 \<and> (\<forall>b n. ms_hook h b n = None)"

lemma accepting_record: "accepting (store_record now b r h) \<longleftrightarrow> accepting h"
  by (simp add: accepting_def store_record_def Let_def)

lemma accepting_records: "accepting (fold (store_record now b) rs h) \<longleftrightarrow> accepting h"
  by (induction rs arbitrary: h) (simp_all add: accepting_record)

lemma accepting_write:
  assumes "accepting h"
  shows "fst (mem_write now None b h) = Inr ()" "accepting (snd (mem_write now None b h))"
  using assms accepting_records [of now b "b_records b" h]
  by (simp_all add: mem_write_def accepting_def Let_def)

lemma plant_healthy: "healthy (with_memory plant) accepting"
  unfolding healthy_def
  by (simp add: with_memory_def plant_def two_rows_def accepting_write)

definition sample_start :: "mem_store world" where
  "sample_start = start_world 0 (new_mem_store 0 None (\<lambda>b n. None))"

lemma sample_accepting: "accepting (store_of sample_start)" "mem (fs_of sample_start) = new_memory"
  by (simp_all add: sample_start_def start_world_def accepting_def new_mem_store_def)

lemma sample_one:
  assumes "store_of w = store_of sample_start" "mem (fs_of w) = new_memory"
  shows "\<exists>res w'. collect_one (with_memory plant) key_1 w = (Some res, w') \<and> cr_key res = key_1 \<and>
    cr_status res = StatusSucceeded \<and> map fr_file (cr_files res) = [file_a]"
proof -
  have "d_list (with_memory plant) (tick w + 1) key_1 = Inr [file_a]" by (simp add: with_memory_def plant_def)
  moreover have "may_begin (d_now (with_memory plant) (tick w + 2)) key_1 (mem (fs_of w))"
    by (simp add: may_begin_def mem_begin_def assms(2) new_memory_def)
  moreover have "accepting (store_of w)" using sample_accepting(1) assms(1) by simp
  ultimately show ?thesis
    using healthy_one [OF plant_healthy, of w key_1 "[file_a]"] by auto
qed

end
