(* ===== verification/CollectorResults.thy ===== *)
theory CollectorResults
  imports CollectorProgress
begin

text \<open>
  What the results of the executor say, for every run: a file's result and the ledger's entry
  for it, a date's result and the results of its files.
\<close>

section \<open>Results and the ledger\<close>

lemma mark_completed_finishes:
  assumes "ledger_inv (mem (fs_of w))" "fst (st_mark_completed d key file n w) = Inr u"
  shows "mem_finished key file (mem (fs_of (snd (st_mark_completed d key file n w))))"
proof -
  have "d_ctx d (tick w) = None" "mem_status_of key (mem (fs_of w)) \<noteq> None"
    using assms(2) by (auto simp: st_mark_completed_def fs_mark_completed_def then_save_def mem_mark_completed_def
        mem_status_of_def Let_def split: prod.splits sum.splits option.splits if_splits)
  with memory.finished_marks [OF assms(1)] show ?thesis unfolding st_ledger by simp
qed

lemma only_ops_inv: "only_ops P w w' \<Longrightarrow> ledger_inv (mem (fs_of w)) \<Longrightarrow> ledger_inv (mem (fs_of w'))"
  by (auto simp: only_ops_def intro: memory.inv_steps)

lemma only_ops_finished:
  assumes "only_ops (file_op key) w w'" "ledger_inv (mem (fs_of w))" "mem_finished k f (mem (fs_of w))"
  shows "mem_finished k f (mem (fs_of w'))"
proof -
  obtain ops where o: "mem (fs_of w') = fold apply_op ops (mem (fs_of w))" "list_all (file_op key) ops"
    using assms(1) by (auto simp: only_ops_def)
  have "\<not> drops k op" if "file_op key op" for op using that by (cases op) simp_all
  then have "list_all (\<lambda>op. \<not> drops k op) ops" using o(2) by (metis (mono_tags, lifting) list.pred_mono_strong)
  with memory.finished_survives [OF assms(2,3)] show ?thesis by (simp add: o(1))
qed

definition failure_recorded :: "collection_key \<Rightarrow> file_identity \<Rightarrow> string \<Rightarrow> ledger \<Rightarrow> bool" where
  "failure_recorded k f msg s \<longleftrightarrow>
     (case map_of (inner (failed_files s) (state_key k)) (identity f) of
        None \<Rightarrow> False | Some r \<Rightarrow> fail_error r = msg \<and> fail_attempts r > 0)"

text \<open>What every way through a file ends in.\<close>

definition settled :: "'h deps \<Rightarrow> collection_key \<Rightarrow> file_identity \<Rightarrow> file_result \<times> 'h world \<Rightarrow> bool" where
  "settled d key file r \<longleftrightarrow>
     (fr_status (fst r) = StatusSucceeded \<and> fr_error (fst r) = '''' \<and> mem_finished key file (mem (fs_of (snd r)))) \<or>
     (fr_status (fst r) = StatusFailed \<and>
        ((\<forall>t. d_ctx d t = None) \<longrightarrow> failure_recorded key file (fr_error (fst r)) (mem (fs_of (snd r)))))"

lemma settled_fail: "settled d key file (fail_file d key file fr msg w)"
  by (auto simp: settled_def fail_file_def st_ledger failure_recorded_def mem_defs inner_put_inner update_conv'
      split: option.split)

lemma settled_done:
  "mem_finished key file (mem (fs_of w)) \<Longrightarrow> fr_status fr = StatusSucceeded \<Longrightarrow> fr_error fr = '''' \<Longrightarrow>
     settled d key file (fr, w)"
  by (simp add: settled_def)

lemma settled_finish:
  assumes "ledger_inv (mem (fs_of w))" "fr_error fr = ''''"
  shows "settled d key file (finish_file d key file fr n w)"
proof -
  have "mem_finished key file (mem (fs_of (snd (st_mark_completed d key file n (ticked 1 w)))))"
    if "fst (st_mark_completed d key file n (ticked 1 w)) = Inr u" for u
    using mark_completed_finishes [OF _ that] assms(1) by simp
  with assms(2) show ?thesis
    by (auto simp: finish_file_def Let_def case_prod_beta settled_fail intro!: settled_done
        split: option.split sum.split)
qed

lemma settled_store:
  assumes "ledger_inv (mem (fs_of w))" "fr_error fr = ''''"
  shows "settled d key file (store_file d key file fr md doc w)"
  using assms by (auto simp: store_file_def case_prod_beta settled_fail ops_feed ops_write_batch
      intro!: settled_finish split: option.split)

lemma settled_file:
  assumes "ledger_inv (mem (fs_of w))"
  shows "settled d key file (collect_file d key file w)"
proof -
  have "mem_finished key file (mem (fs_of w))" if "mem_file_completed (d_ctx d (tick w)) key file (mem (fs_of w)) = Inr True"
    using that by (cases "d_ctx d (tick w)") (simp_all add: mem_finished_def mem_file_completed_def)
  then show ?thesis
    using assms by (auto simp: collect_file_def Let_def settled_fail intro!: settled_store settled_done
        split: option.split sum.split bool.split)
qed

lemma st_end_keeps:
  assumes "ledger_inv (mem (fs_of w))" "mem_finished k f (mem (fs_of w))"
  shows "mem_finished k f (mem (fs_of (st_end d key st note w)))"
  unfolding st_ledger by (rule memory.finished_keeps [OF assms]) simp

lemma file_of_parts:
  "fr_file (fst (fail_file d key file fr msg w)) = fr_file fr"
  "fr_file (fst (finish_file d key file fr n w)) = fr_file fr"
  by (auto simp: finish_file_def fail_file_def Let_def case_prod_beta split: option.split sum.split)

lemma file_of_store: "fr_file (fst (store_file d key file fr md doc w)) = fr_file fr"
  by (auto simp: store_file_def file_of_parts case_prod_beta split: option.split)

lemma file_of_result: "fr_file (fst (collect_file d key file w)) = file"
  by (auto simp: collect_file_def file_of_store file_of_parts Let_def split: option.split sum.split bool.split)

definition failure_texts :: "file_result list \<Rightarrow> string list" where
  "failure_texts frs = map (\<lambda>fr. f_name (fr_file fr) @ '': '' @ fr_error fr) (filter (\<lambda>fr. fr_status fr = StatusFailed) frs)"

definition stored_records :: "file_result list \<Rightarrow> nat" where
  "stored_records frs = sum_list (map fr_records (filter (\<lambda>fr. fr_status fr \<noteq> StatusFailed) frs))"

definition file_settled :: "collection_key \<Rightarrow> ledger \<Rightarrow> file_result \<Rightarrow> bool" where
  "file_settled key s fr \<longleftrightarrow> fr_status fr = StatusFailed \<or>
     (fr_status fr = StatusSucceeded \<and> mem_finished key (fr_file fr) s)"

lemma files_result:
  assumes "collect_files d key fs w = (c, frs, fails, n, w')" "ledger_inv (mem (fs_of w))"
  shows "(c = None \<longrightarrow> map fr_file frs = fs) \<and> (c \<noteq> None \<longrightarrow> (\<exists>t. d_ctx d t = c)) \<and> fails = failure_texts frs \<and>
    n = stored_records frs \<and> list_all (file_settled key (mem (fs_of w'))) frs"
  using assms
proof (induction fs arbitrary: w c frs fails n)
  case Nil
  then show ?case by (simp add: failure_texts_def stored_records_def)
next
  case (Cons f fs)
  show ?case
  proof (cases "d_ctx d (tick w)")
    case (Some e)
    with Cons.prems(1) have "c = Some e" "frs = []" "fails = []" "n = 0" by simp_all
    with Some show ?thesis by (auto simp: failure_texts_def stored_records_def)
  next
    case None
    obtain fr w1 where f: "collect_file d key f (ticked 1 w) = (fr, w1)" by fastforce
    obtain c2 frs2 fails2 n2 where r:
      "collect_files d key fs (observe (EvFileDone key fr) w1) = (c2, frs2, fails2, n2, w')"
      using Cons.prems(1) None f by (auto simp: collect_file_tracked_def Let_def split: prod.splits)
    have inv: "ledger_inv (mem (fs_of w1))"
      using only_ops_inv [OF ops_file [of key "ticked 1 w" d f]] Cons.prems(2) f by simp
    note IH = Cons.IH [OF r]
    have "settled d key f (fr, w1)" using settled_file [of "ticked 1 w" d key f] Cons.prems(2) f by simp
    moreover have "fr_file fr = f" using file_of_result [of d key f "ticked 1 w"] f by simp
    moreover have "mem_finished key f (mem (fs_of w'))" if "mem_finished key f (mem (fs_of w1))"
      using only_ops_finished [OF ops_files [of key "observe (EvFileDone key fr) w1" d fs]] inv that r by simp
    ultimately show ?thesis
      using Cons.prems(1) None IH inv r f
      by (auto simp: collect_file_tracked_def Let_def failure_texts_def stored_records_def settled_def file_settled_def)
  qed
qed

lemma end_status:
  assumes "\<And>t. d_ctx d t = None" "mem_status_of key (mem (fs_of w)) \<noteq> None"
  shows "mem_status_of key (mem (fs_of (st_end d key st note w))) = Some st"
  using assms by (auto simp: st_ledger mem_defs mem_status_of_def update_conv')

lemma began_status:
  assumes "st_begin d key w = ((True, None), w1)"
  shows "mem_status_of key (mem (fs_of w1)) = Some StatusRunning"
proof -
  have "fst (mem_begin (d_ctx d (tick w)) (d_now d (tick w)) key hours_24 (mem (fs_of w))) = Inr True"
    using st_begin_result [of d key w] assms by simp
  from begun_status [OF this] show ?thesis using st_ledger(1) [of d key w] assms by simp
qed

text \<open>How a date whose files were collected ends.\<close>

inductive one_ends :: "'h deps \<Rightarrow> collection_key \<Rightarrow> file_result list \<Rightarrow> err option \<Rightarrow> collection_result \<Rightarrow>
    'h world \<Rightarrow> 'h world \<Rightarrow> bool" for d key frs where
  cancelled: "cr_status res = StatusFailed \<Longrightarrow> cr_error res = err_text e \<Longrightarrow>
    one_ends d key frs (Some e) res w2 (st_end d key StatusFailed (err_text e) w2)"
| with_failures: "failure_texts frs \<noteq> [] \<Longrightarrow> cr_status res = StatusFailed \<Longrightarrow>
    cr_error res = join_lines (failure_texts frs) \<Longrightarrow>
    one_ends d key frs None res w2 (st_end d key StatusFailed (join_lines (failure_texts frs)) (ticked 1 w2))"
| all_stored: "failure_texts frs = [] \<Longrightarrow> cr_status res = StatusSucceeded \<Longrightarrow> cr_error res = '''' \<Longrightarrow>
    one_ends d key frs None res w2 (st_end d key StatusSucceeded '''' (ticked 1 w2))"

lemma one_shape:
  assumes "collect_one d key w = (Some res, w')" "cr_files res \<noteq> []" "ledger_inv (mem (fs_of w))"
  obtains f fs w1 c w2 where "d_list d (tick w + 1) key = Inr (f # fs)"
    "st_begin d key (ticked 2 w) = ((True, None), w1)" "ledger_inv (mem (fs_of w1))"
    "collect_files d key (f # fs) (observe (EvCollectionStarted key) w1) =
       (c, cr_files res, failure_texts (cr_files res), cr_records res, w2)"
    "one_ends d key (cr_files res) c res w2 w'"
proof -
  obtain f fs where l: "d_list d (tick w + 1) key = Inr (f # fs)"
    using assms(1,2) by (auto simp: collect_one_def end_collection_def Let_def split: sum.splits list.splits prod.splits option.splits if_splits)
  obtain ok be w1 where b: "st_begin d key (ticked 2 w) = ((ok, be), w1)" by (metis prod.collapse)
  have ok: "ok" "be = None"
    using assms(1,2) l b by (auto simp: collect_one_def end_collection_def Let_def split: option.splits bool.splits)
  obtain c frs fails n w2 where f:
    "collect_files d key (f # fs) (observe (EvCollectionStarted key) w1) = (c, frs, fails, n, w2)"
    by (metis prod_cases5)
  have inv1: "ledger_inv (mem (fs_of w1))"
    using st_ledger(1) [of d key "ticked 2 w"] apply_op_inv [OF assms(3)] b by (simp del: apply_op.simps)
  from files_result [OF f] inv1 have fails: "fails = failure_texts frs" by simp
  show ?thesis
  proof (rule that [OF l _ inv1, of c w2])
    show "st_begin d key (ticked 2 w) = ((True, None), w1)" using b ok by simp
    show "collect_files d key (f # fs) (observe (EvCollectionStarted key) w1) =
       (c, cr_files res, failure_texts (cr_files res), cr_records res, w2)"
      using assms(1) l b ok f fails
      by (auto simp: collect_one_def end_collection_def Let_def simp del: collect_files.simps split: option.splits if_splits)
    show "one_ends d key (cr_files res) c res w2 w'"
      using assms(1) l b ok f fails
      by (auto simp: collect_one_def end_collection_def Let_def simp del: collect_files.simps One_nat_def intro!: one_ends.intros
          split: option.splits if_splits)
  qed
qed

lemma one_finished:
  assumes "collect_one d key w = (Some res, w')" "cr_status res = StatusSucceeded" "cr_files res \<noteq> []"
    "ledger_inv (mem (fs_of w))"
  shows "\<forall>f \<in> fr_file ` set (cr_files res). mem_finished key f (mem (fs_of w'))"
proof -
  from assms(1,3,4) obtain f fs w1 c w2 where s: "d_list d (tick w + 1) key = Inr (f # fs)"
    "st_begin d key (ticked 2 w) = ((True, None), w1)" "ledger_inv (mem (fs_of w1))"
    "collect_files d key (f # fs) (observe (EvCollectionStarted key) w1) =
       (c, cr_files res, failure_texts (cr_files res), cr_records res, w2)"
    "one_ends d key (cr_files res) c res w2 w'" by (rule one_shape)
  have "ledger_inv (mem (fs_of w2))"
    using only_ops_inv [OF ops_files [of key "observe (EvCollectionStarted key) w1" d "f # fs"]] s(3,4) by simp
  moreover from s(5) assms(2) have "failure_texts (cr_files res) = []" "w' = st_end d key StatusSucceeded '''' (ticked 1 w2)"
    by (cases; simp)+
  ultimately show ?thesis
    using files_result [OF s(4)] s(3) st_end_keeps [of "ticked 1 w2"]
    by (auto simp: list_all_iff file_settled_def failure_texts_def filter_empty_conv)
qed

lemma files_cut:
  "collect_files d key fs w = (Some e, frs, fails, n, w') \<Longrightarrow>
     (\<exists>g gs. fs = map fr_file frs @ g # gs) \<and> (\<exists>t \<le> tick w'. d_ctx d t = Some e)"
proof (induction fs arbitrary: w frs fails n)
  case (Cons f fs)
  show ?case
  proof (cases "d_ctx d (tick w)")
    case (Some x)
    with Cons.prems show ?thesis by (auto simp: ticked_def intro: exI [of _ "tick w"])
  next
    case None
    then obtain fr frs2 fails2 n2 w1 where r: "frs = fr # frs2" "fr_file fr = f"
      "collect_files d key fs w1 = (Some e, frs2, fails2, n2, w')"
      using Cons.prems file_of_result [of d key f "ticked 1 w"]
      by (auto simp: collect_file_tracked_def Let_def split: prod.splits)
    with Cons.IH [OF r(3)] show ?thesis by auto
  qed
qed simp

lemma end_after_cancel:
  "d_ctx d (tick w) \<noteq> None \<Longrightarrow> mem (fs_of (st_end d key st note w)) = mem (fs_of w)"
  by (auto simp: st_ledger mem_end_def)

text \<open>C22. A date succeeds with its files: when files of a date were collected, its row count is that
of the files that did not fail, and a file that succeeded is completed in the ledger. Either every
listed file was visited; then the result is Succeeded if all of them succeeded and Failed otherwise,
with one line for each failed file, and, if the context lives, so is the ledger's status of the date.
Or the context ended before some listed file; then the result is Failed with the context's error,
even if every visited file succeeded, and the ledger still says Running, since a context that has
ended refuses the last write as well.\<close>

theorem date_succeeds_with_its_files:
  assumes "collect_one d key w = (Some res, w')" "cr_files res \<noteq> []"
    and "mem (fs_of w) = fold apply_op ops new_memory"
  shows "\<exists>fs. d_list d (tick w + 1) key = Inr fs \<and>
    cr_records res = stored_records (cr_files res) \<and>
    list_all (file_settled key (mem (fs_of w'))) (cr_files res) \<and>
    (map fr_file (cr_files res) = fs \<and>
       cr_status res = (if failure_texts (cr_files res) = [] then StatusSucceeded else StatusFailed) \<and>
       cr_error res = join_lines (failure_texts (cr_files res)) \<and>
       ((\<forall>t. d_ctx d t = None) \<longrightarrow> mem_status_of key (mem (fs_of w')) = Some (cr_status res)) \<or>
     (\<exists>g gs t e. fs = map fr_file (cr_files res) @ g # gs \<and> d_ctx d t = Some e \<and>
       cr_status res = StatusFailed \<and> cr_error res = err_text e \<and>
       ((\<forall>t' \<ge> t. d_ctx d t' \<noteq> None) \<longrightarrow> mem_status_of key (mem (fs_of w')) = Some StatusRunning)))"
proof -
  have inv: "ledger_inv (mem (fs_of w))" unfolding assms(3) by (rule memory.inv_steps) simp
  from assms(1,2) inv obtain f fs w1 c w2 where s: "d_list d (tick w + 1) key = Inr (f # fs)"
    "st_begin d key (ticked 2 w) = ((True, None), w1)" "ledger_inv (mem (fs_of w1))"
    "collect_files d key (f # fs) (observe (EvCollectionStarted key) w1) =
       (c, cr_files res, failure_texts (cr_files res), cr_records res, w2)"
    "one_ends d key (cr_files res) c res w2 w'" by (rule one_shape)
  have ops: "only_ops (file_op key) w1 w2"
    using ops_files [of key "observe (EvCollectionStarted key) w1" d "f # fs"] s(4) by simp
  have inv2: "ledger_inv (mem (fs_of w2))" by (rule only_ops_inv [OF ops s(3)])
  have st2: "mem_status_of key (mem (fs_of w2)) = Some StatusRunning"
    using file_ops_status [OF ops, of key] began_status [OF s(2)] by simp
  note r = files_result [OF s(4)]
  have survives: "list_all (file_settled key (mem (fs_of (st_end d key st msg w3)))) (cr_files res)"
    if "fs_of w3 = fs_of w2" for st msg w3
    using r s(3) st_end_keeps [of w3] inv2 that by (auto simp: list_all_iff file_settled_def)
  have stat: "mem_status_of key (mem (fs_of (st_end d key st msg (ticked 1 w2)))) = Some st" if "\<forall>t. d_ctx d t = None" for st msg
    using end_status [of d key "ticked 1 w2"] that st2 by simp
  from s(5) show ?thesis
  proof cases
    case (cancelled e)
    from files_cut [OF s(4) [unfolded \<open>c = Some e\<close>]] obtain g gs t
      where cut: "f # fs = map fr_file (cr_files res) @ g # gs" "t \<le> tick w2" "d_ctx d t = Some e" by blast
    have "mem_status_of key (mem (fs_of w')) = Some StatusRunning" if "\<forall>t' \<ge> t. d_ctx d t' \<noteq> None"
      using that cut(2) end_after_cancel [of d w2] st2 cancelled by simp
    with cancelled cut r s(1,3) survives [of w2] show ?thesis by auto
  next
    case with_failures
    with r s(1,3) survives [of "ticked 1 w2"] stat show ?thesis by simp
  next
    case all_stored
    with r s(1,3) survives [of "ticked 1 w2"] stat show ?thesis by (simp add: join_lines_def)
  qed
qed

theorem date_succeeds_with_its_files_witness:
  "\<exists>res w'. collect_one (with_memory plant) key_1 sample_start = (Some res, w') \<and>
     mem_finished key_1 file_a (mem (fs_of w')) \<and> mem_status_of key_1 (mem (fs_of w')) = Some StatusSucceeded"
proof -
  obtain res w' where r: "collect_one (with_memory plant) key_1 sample_start = (Some res, w')"
    "cr_status res = StatusSucceeded" "map fr_file (cr_files res) = [file_a]"
    using sample_one [of sample_start] sample_accepting(2) by auto
  have files: "cr_files res \<noteq> []" using r(3) by auto
  have m: "mem (fs_of sample_start) = fold apply_op [] new_memory" by (simp add: sample_accepting)
  have c: "\<forall>t. d_ctx (with_memory plant) t = None" by (simp add: with_memory_def plant_def)
  from date_succeeds_with_its_files [OF r(1) files m] r files c show ?thesis
    by (auto simp: failure_texts_def file_settled_def filter_empty_conv list_all_iff split: if_splits)
qed

text \<open>C25. A healthy date is collected: when nothing fails and the ledger lets the date begin, collecting
it returns, with every listed file, of at least one, Succeeded in the result and completed in the
ledger, and the date itself Succeeded, in the result and in the ledger.\<close>

theorem healthy_date_is_collected:
  assumes "healthy d accepts" "accepts (store_of w)" "d_list d (tick w + 1) key = Inr fs" "fs \<noteq> []"
    and "may_begin (d_now d (tick w + 2)) key (mem (fs_of w))" "mem (fs_of w) = fold apply_op ops new_memory"
  shows "\<exists>res w'. collect_one d key w = (Some res, w') \<and> cr_status res = StatusSucceeded \<and>
    map fr_file (cr_files res) = fs \<and> list_all (\<lambda>fr. fr_status fr = StatusSucceeded) (cr_files res) \<and>
    list_all (\<lambda>f. mem_finished key f (mem (fs_of w'))) fs \<and>
    mem_status_of key (mem (fs_of w')) = Some StatusSucceeded"
proof -
  obtain res w' where r: "collect_one d key w = (Some res, w')" "cr_status res = StatusSucceeded"
    "map fr_file (cr_files res) = fs" "mem_status_of key (mem (fs_of w')) = Some StatusSucceeded"
    "list_all (\<lambda>fr. fr_status fr = StatusSucceeded) (cr_files res)"
    using healthy_one [OF assms(1-5)] by auto
  have "ledger_inv (mem (fs_of w))" unfolding assms(6) by (rule memory.inv_steps) simp
  moreover have "cr_files res \<noteq> []" using r(3) assms(4) by auto
  ultimately have "\<forall>f \<in> fr_file ` set (cr_files res). mem_finished key f (mem (fs_of w'))"
    using one_finished [OF r(1,2)] by blast
  then have "list_all (\<lambda>f. mem_finished key f (mem (fs_of w'))) fs" by (simp add: list_all_iff flip: r(3))
  with r show ?thesis by blast
qed

theorem healthy_date_is_collected_witness:
  "\<exists>res w'. collect_one (with_memory plant) key_1 sample_start = (Some res, w') \<and>
     cr_status res = StatusSucceeded \<and> mem_finished key_1 file_a (mem (fs_of w'))"
proof -
  have l: "d_list (with_memory plant) (tick sample_start + 1) key_1 = Inr [file_a]"
    by (simp add: with_memory_def plant_def)
  have b: "may_begin (d_now (with_memory plant) (tick sample_start + 2)) key_1 (mem (fs_of sample_start))"
    by (simp add: may_begin_def mem_begin_def sample_accepting new_memory_def)
  have m: "mem (fs_of sample_start) = fold apply_op [] new_memory" by (simp add: sample_accepting)
  from healthy_date_is_collected [OF plant_healthy sample_accepting(1) l _ b m] show ?thesis by auto
qed

section \<open>Collecting again\<close>

lemma finished_file_again:
  assumes "d_ctx d (tick w) = None" "mem_finished key file (mem (fs_of w))"
  shows "collect_file d key file w =
    (\<lparr>fr_file = file, fr_metadata = [], fr_status = StatusSucceeded, fr_records = 0, fr_error = ''''\<rparr>, ticked 4 w)"
  using assms by (simp add: collect_file_def mem_finished_def Let_def)

lemma finished_files_again:
  assumes "\<forall>t. d_ctx d t = None" "list_all (\<lambda>f. mem_finished key f (mem (fs_of w))) fs"
  shows "\<exists>frs w'. collect_files d key fs w = (None, frs, [], 0, w') \<and> store_of w' = store_of w \<and> fs_of w' = fs_of w"
  using assms(2)
proof (induction fs arbitrary: w)
  case (Cons f fs)
  let ?fr = "\<lparr>fr_file = f, fr_metadata = [], fr_status = StatusSucceeded, fr_records = 0, fr_error = ''''\<rparr>"
  have "collect_file d key f (ticked 1 w) = (?fr, ticked 4 (ticked 1 w))"
    using Cons.prems assms(1) by (intro finished_file_again) simp_all
  moreover from Cons.IH [of "observe (EvFileDone key ?fr) (ticked 4 (ticked 1 w))"] Cons.prems
  obtain frs w' where "collect_files d key fs (observe (EvFileDone key ?fr) (ticked 4 (ticked 1 w))) = (None, frs, [], 0, w')"
    "store_of w' = store_of w" "fs_of w' = fs_of w" by auto
  ultimately show ?case using assms(1) by (simp add: collect_file_tracked_def Let_def)
qed simp

lemma begin_keeps_finished:
  "mem_finished k f (mem (fs_of w)) \<Longrightarrow> ledger_inv (mem (fs_of w)) \<Longrightarrow> mem_finished k f (mem (fs_of (snd (st_begin d key w))))"
  unfolding st_ledger by (rule memory.finished_keeps) simp_all

text \<open>C26. Collecting again stores nothing: when every listed file of a date is already completed, as
after a success in append mode or after a failure of another part, collecting the date reads no file
and writes nothing to the storage, and the result, if there is one, counts no rows.\<close>

theorem recollection_stores_nothing:
  assumes "\<forall>t. d_ctx d t = None" "d_list d (tick w + 1) key = Inr fs"
    and "list_all (\<lambda>f. mem_finished key f (mem (fs_of w))) fs" "mem (fs_of w) = fold apply_op ops new_memory"
    and "collect_one d key w = (r, w')"
  shows "store_of w' = store_of w \<and> (\<forall>res. r = Some res \<longrightarrow> cr_records res = 0)"
proof (cases fs)
  case Nil
  with assms(2,5) show ?thesis by (auto simp: collect_one_def end_collection_def Let_def split: if_splits)
next
  case (Cons f gs)
  have inv: "ledger_inv (mem (fs_of w))" unfolding assms(4) by (rule memory.inv_steps) simp
  obtain ok be w1 where b: "st_begin d key (ticked 2 w) = ((ok, be), w1)" by (metis prod.collapse)
  have s: "store_of w1 = store_of w" using st_frame(1) [of d key "ticked 2 w"] b by simp
  have "list_all (\<lambda>f. mem_finished key f (mem (fs_of (observe (EvCollectionStarted key) w1)))) fs"
    using assms(3) inv begin_keeps_finished [of key _ "ticked 2 w" d key] b by (simp add: list_all_iff)
  from finished_files_again [OF assms(1) this] obtain frs w2 where
    f: "collect_files d key fs (observe (EvCollectionStarted key) w1) = (None, frs, [], 0, w2)" "store_of w2 = store_of w"
    using s by auto
  show ?thesis
    using assms(2,5) b f s
    by (auto simp: Cons collect_one_def end_collection_def Let_def simp del: collect_files.simps split: option.splits bool.splits)
qed

theorem recollection_stores_nothing_witness:
  "store_of (snd (collect_one plant key_1 (start_world 0 (new_mem_store 0 None (\<lambda>b n. None))
     \<lparr>fs_of := \<lparr>mem = fold apply_op [OpBegin None 5 key_1 10, OpCompleted None 6 key_1 file_a 2, OpEnd None 7 7 key_1 StatusFailed ''x'']
        new_memory, disk = None\<rparr>\<rparr>))) = new_mem_store 0 None (\<lambda>b n. None)"
proof -
  let ?s = "fold apply_op [OpBegin None 5 key_1 10] new_memory"
  let ?ops = "[OpBegin None 5 key_1 10, OpCompleted None 6 key_1 file_a 2, OpEnd None 7 7 key_1 StatusFailed ''x'']"
  let ?w = "start_world 0 (new_mem_store 0 None (\<lambda>b n. None)) \<lparr>fs_of := \<lparr>mem = fold apply_op ?ops new_memory, disk = None\<rparr>\<rparr>"
  have i: "ledger_inv ?s" by (rule memory.inv_steps) simp
  have "mem_status_of key_1 ?s \<noteq> None"
    by (simp add: mem_begin_def open_collection_def new_memory_def mem_status_of_def)
  from memory.marked_survives [OF i this, of "[OpEnd None 7 7 key_1 StatusFailed ''x'']"]
  have fin: "list_all (\<lambda>f. mem_finished key_1 f (mem (fs_of ?w))) [file_a]" by simp
  have c: "\<forall>t. d_ctx plant t = None" "d_list plant (tick ?w + 1) key_1 = Inr [file_a]" by (simp_all add: plant_def)
  have m: "mem (fs_of ?w) = fold apply_op ?ops new_memory" by simp
  obtain r w' where o: "collect_one plant key_1 ?w = (r, w')" by fastforce
  from recollection_stores_nothing [OF c fin m o] o show ?thesis by (simp add: start_world_def)
qed

end
