(* ===== verification/CollectorProps.thy ===== *)
theory CollectorProps
  imports CollectorResults
begin

text \<open>
  The invariant of the executor over whole triggers: the rows of completed files are stored exactly
  once, whatever fails.
\<close>

section \<open>Rows\<close>

lemma new_not_finished [simp]: "\<not> mem_finished k f new_memory"
  by (simp add: mem_finished_def mem_file_completed_def new_memory_def)

lemma start_covered: "memory_pass.covered d (start_world t (new_mem_store after e hook))"
  by (simp add: memory_pass.covered_def start_world_def)

lemma count_distinct: "distinct xs \<Longrightarrow> x \<in> set xs \<Longrightarrow> count_list xs x = 1"
  by (induction xs) auto

lemma stored_once:
  assumes "ms_good h" "ms_stored h (identity f) n"
  shows "count_list (map (\<lambda>x. row_number (sr_record x)) (rows_for_file f h)) n = 1"
proof -
  have "distinct (numbers h (identity f))" "n \<in> set (numbers h (identity f))"
    using assms by (auto simp: ms_good_def)
  then show ?thesis unfolding rows_for_file_def numbers_def by (rule count_distinct)
qed

text \<open>C21. Rows are stored exactly once: after any sequence of triggers over the memory storage,
with any failures of the listing, the parser, the storage, the backup, the state file and the
context, a file the ledger holds as completed has been parsed to its end once, and every row of
that parse is in the store exactly once.\<close>

theorem finished_files_are_stored_once:
  assumes "w = fold (\<lambda>q w. snd (handle (with_memory d) q w)) qs (start_world t (new_mem_store after e hook))"
    and "mem_finished k f (mem (fs_of w))"
  shows "\<exists>u g doc. identity g = identity f \<and> d_parse d u g = Inr doc \<and> p_end doc = None \<and>
    (\<forall>r \<in> set (p_rows doc).
       count_list (map (\<lambda>x. row_number (sr_record x)) (rows_for_file f (store_of w))) (row_number r) = 1)"
proof -
  have c: "memory_pass.covered d w"
    unfolding assms(1) by (rule memory_pass.covered_passes [OF start_covered])
  then have "memory_pass.fully d f (store_of w)" and good: "ms_good (store_of w)"
    using assms(2) by (simp_all add: memory_pass.covered_def)
  then obtain u g doc where g: "identity g = identity f" "d_parse (with_memory d) u g = Inr doc" "p_end doc = None"
    "\<forall>r \<in> set (p_rows doc). ms_stored (store_of w) (identity f) (row_number r)"
    by (auto simp: memory_pass.fully_def)
  from g(4) have "\<forall>r \<in> set (p_rows doc).
      count_list (map (\<lambda>x. row_number (sr_record x)) (rows_for_file f (store_of w))) (row_number r) = 1"
    using stored_once [OF good] by blast
  moreover have "d_parse d u g = Inr doc" using g(2) by (simp add: with_memory_def)
  ultimately show ?thesis using g(1,3) by blast
qed

lemma sample_handle:
  "handle (with_memory plant) (Some day_1) sample_start =
     (let (c, rs, fails, w1) = collect_keys (with_memory plant) True [key_1] (ticked 3 sample_start)
      in ((rs, case c of Some e \<Rightarrow> Some e
               | None \<Rightarrow> if fails = [] then None else Some (Wrapped (join_lines fails) [])), w1))"
  by (simp add: handle_def with_memory_def plant_def resolve_policy_def is_zero_date_def zero_date_def plan_def
      mem_list_incomplete_def mem_last_completed_def gap_start_def sample_accepting key_1_def Let_def trigger_keys_def
      day_1_def new_memory_def)

theorem finished_files_are_stored_once_witness:
  "mem_finished key_1 file_a (mem (fs_of (snd (handle (with_memory plant) (Some day_1) sample_start)))) \<and>
   count_list (map (\<lambda>x. row_number (sr_record x))
     (rows_for_file file_a (store_of (snd (handle (with_memory plant) (Some day_1) sample_start))))) 2 = 1"
proof -
  let ?w = "snd (handle (with_memory plant) (Some day_1) sample_start)"
  let ?before = "ticked 2 (ticked 3 sample_start)"
  obtain res w' where r: "collect_one (with_memory plant) key_1 ?before = (Some res, w')"
    "cr_status res = StatusSucceeded" "map fr_file (cr_files res) = [file_a]"
    using sample_one [of ?before] sample_accepting(2) by auto
  have w: "fs_of ?w = fs_of w'"
  proof -
    have "collect_keys (with_memory plant) True [key_1] (ticked 3 sample_start) =
        (None, [res], [], observe (EvCollectionDone res) w')"
      by (simp add: r(1,2) healthyD(1) [OF plant_healthy])
    then show ?thesis by (simp add: sample_handle)
  qed
  have "mem_finished key_1 file_a (mem (fs_of w'))"
    using one_finished [OF r(1,2)] r(3) sample_accepting(2) by force
  then have f: "mem_finished key_1 file_a (mem (fs_of ?w))" by (simp add: w)
  have "?w = fold (\<lambda>q w. snd (handle (with_memory plant) q w)) [Some day_1]
      (start_world 0 (new_mem_store 0 None (\<lambda>b n. None)))" by (simp add: sample_start_def)
  from finished_files_are_stored_once [OF this f] f show ?thesis by (auto simp: plant_def two_rows_def)
qed

end
