(* ===== verification/CollectorScope.thy ===== *)
theory CollectorScope
  imports CollectorResults "HOL-Library.Sublist"
begin

text \<open>
  What a trigger may touch: the dates it collects and their order, dates for which there is
  nothing to collect, files that are already completed, and a date whose begin could not be saved.
\<close>

section \<open>Operations of a date and of a trigger\<close>

lemma file_op_key: "file_op key op \<Longrightarrow> op_key op = Some key"
  by (cases op) simp_all

lemma ops_one: "only_ops (\<lambda>op. op_key op = Some key) w (snd (collect_one d key w))"
proof -
  have b: "only_ops (\<lambda>op. op_key op = Some key) w (snd (st_begin d key (ticked 2 w)))"
    using ops_st(1) [of key "ticked 2 w" d] by simp
  have f: "only_ops (\<lambda>op. op_key op = Some key) w (snd (snd (snd (snd (collect_files d key fs
      (observe (EvCollectionStarted key) (snd (st_begin d key (ticked 2 w)))))))))" for fs
  proof (rule only_ops_trans [OF b])
    have "only_ops (file_op key) (observe (EvCollectionStarted key) (snd (st_begin d key (ticked 2 w))))
      (snd (snd (snd (snd (collect_files d key fs (observe (EvCollectionStarted key) (snd (st_begin d key (ticked 2 w)))))))))"
      by (rule ops_files)
    from only_ops_mono [OF this, of "\<lambda>op. op_key op = Some key"] file_op_key
    show "only_ops (\<lambda>op. op_key op = Some key) (snd (st_begin d key (ticked 2 w)))
      (snd (snd (snd (snd (collect_files d key fs (observe (EvCollectionStarted key) (snd (st_begin d key (ticked 2 w)))))))))"
      by auto
  qed
  have e: "only_ops (\<lambda>op. op_key op = Some key) w (st_end d key st msg w1)"
    if "only_ops (\<lambda>op. op_key op = Some key) w w1" for w1 st msg
    by (rule only_ops_trans [OF that ops_st(2)])
  have x: "only_ops (\<lambda>op. op_key op = Some key) w (st_drop d key (ticked 2 w))"
    using ops_st(3) [of key "ticked 2 w" d] by simp
  from b f e x show ?thesis
    by (auto simp: collect_one_def end_collection_def Let_def case_prod_beta simp del: collect_files.simps
        split: sum.split list.split option.split bool.split)
qed

lemma ops_keys: "only_ops (\<lambda>op. \<exists>k \<in> set ks. op_key op = Some k) w (snd (snd (snd (collect_keys d first ks w))))"
proof (induction ks arbitrary: first w)
  case (Cons k ks)
  let ?P = "\<lambda>op. \<exists>j \<in> set (k # ks). op_key op = Some j"
  let ?w1 = "snd (collect_one d k (ticked 2 w))"
  have o: "only_ops ?P w ?w1"
    by (rule only_ops_mono [OF ops_one [of k "ticked 2 w" d, unfolded only_ops_ticked]]) simp
  have r: "only_ops ?P w (snd (snd (snd (collect_keys d False ks w2))))" if "fs_of w2 = fs_of ?w1" for w2
  proof -
    have "only_ops ?P w2 (snd (snd (snd (collect_keys d False ks w2))))"
      by (rule only_ops_mono [OF Cons]) auto
    moreover have "only_ops ?P w w2" using o that by (simp add: only_ops_def)
    ultimately show ?thesis by (rule only_ops_trans [rotated])
  qed
  show ?case using r [of ?w1] r [of "observe e ?w1" for e]
    by (simp add: Let_def case_prod_beta split: option.split)
qed simp

lemma key_of_one: "fst (collect_one d key w) = Some res \<Longrightarrow> cr_key res = key"
  by (auto simp: collect_one_def end_collection_def Let_def case_prod_beta simp del: collect_files.simps
      split: sum.splits list.splits option.splits bool.splits if_splits)

lemma keys_of_results: "subseq (map cr_key (fst (snd (collect_keys d first ks w)))) ks"
proof (induction ks arbitrary: first w)
  case (Cons k ks)
  have "cr_key res = k" if "fst (collect_one d k (ticked 2 w)) = Some res" for res
    using key_of_one [OF that] .
  with Cons show ?case
    by (auto simp: Let_def case_prod_beta intro: subseq_Cons' split: option.split)
qed simp

text \<open>What an operation on other keys leaves alone.\<close>

lemma other_key_op:
  assumes "op_key op \<noteq> Some k"
  shows "mem_status_of k (apply_op op s) = mem_status_of k s"
    "mem_finished k f (apply_op op s) = mem_finished k f s"
proof -
  note r = record_frame [OF assms, of s]
  have "inner (files (apply_op op s)) (state_key k) = inner (files s) (state_key k)"
    using assms by (cases op) (auto simp: mem_defs inner_put_inner split: option.split)
  with r show "mem_finished k f (apply_op op s) = mem_finished k f s"
    unfolding mem_finished_def mem_file_completed_def Let_def by (simp only: option.case)
  show "mem_status_of k (apply_op op s) = mem_status_of k s" by (simp add: mem_status_of_def r)
qed

lemma other_key_ops:
  assumes "only_ops P w w'" "\<And>op. P op \<Longrightarrow> op_key op \<noteq> Some k"
  shows "mem_status_of k (mem (fs_of w')) = mem_status_of k (mem (fs_of w))"
    "mem_finished k f (mem (fs_of w')) = mem_finished k f (mem (fs_of w))"
proof -
  have "mem_status_of k (fold apply_op ops s) = mem_status_of k s \<and>
      mem_finished k f (fold apply_op ops s) = mem_finished k f s" if "list_all P ops" for ops s
    using that by (induction ops arbitrary: s) (simp_all add: other_key_op assms(2) del: apply_op.simps)
  with assms(1) show "mem_status_of k (mem (fs_of w')) = mem_status_of k (mem (fs_of w))"
    "mem_finished k f (mem (fs_of w')) = mem_finished k f (mem (fs_of w))"
    by (auto simp: only_ops_def)
qed

section \<open>The range of a trigger\<close>

lemma plan_alive: "plan catchup c1 c2 now src target s = Inr ks \<Longrightarrow> c1 = None \<and> c2 = None"
  by (auto simp: plan_def mem_list_incomplete_def mem_last_completed_def Let_def split: option.splits)

lemma plan_range:
  assumes "plan catchup c1 c2 now src target s = Inr ks" "ledger_inv s" "k \<in> set ks"
  shows "k_source k = src" "k_date k \<le> target" "distinct ks"
proof -
  have p: "plan catchup None None now src target s = Inr ks" using plan_alive [OF assms(1)] assms(1) by simp
  note spec = plan_spec [OF assms(2) p]
  show "k_source k = src" "k_date k \<le> target" "distinct ks"
    using assms(3) spec worklist_keys(1,2) [OF assms(2)] by (auto split: option.splits)
qed

definition in_range :: "'h deps \<Rightarrow> collection_date \<Rightarrow> collection_key \<Rightarrow> bool" where
  "in_range d target k \<longleftrightarrow> k_source k = d_source d \<and> k_date k \<le> target \<and>
     (is_zero_date (d_since d) \<or> d_since d \<le> k_date k)"

definition request_target :: "'h deps \<Rightarrow> collection_date option \<Rightarrow> 'h world \<Rightarrow> collection_date option" where
  "request_target d q w =
     (case resolve_policy (d_policy d) (d_zone d) (d_now d (tick w)) of
        Inl e \<Rightarrow> None | Inr t \<Rightarrow> (case q of None \<Rightarrow> Some t | Some x \<Rightarrow> Some x))"

lemma key_eqI: "k_source k = s \<Longrightarrow> k_date k = x \<Longrightarrow> k = mk_key s x"
  by (cases k) (simp add: mk_key_def)

lemma trigger_keys_spec:
  assumes "distinct ks" "\<And>k. k \<in> set ks \<Longrightarrow> k_source k = d_source d" "\<And>k. k \<in> set ks \<Longrightarrow> k_date k \<le> target"
    and "is_zero_date (d_since d) \<or> d_since d \<le> target"
  shows "sorted (map k_date (trigger_keys d target ks))" "distinct (trigger_keys d target ks)"
    "list_all (in_range d target) (trigger_keys d target ks)"
    "set (trigger_keys d target ks) = insert (mk_key (d_source d) target) {k \<in> set ks. in_range d target k}"
proof -
  define ks1 where "ks1 = (if \<not> is_zero_date (d_since d) then filter (\<lambda>k. \<not> date_before (k_date k) (d_since d)) ks else ks)"
  define found where "found = list_ex (\<lambda>k. k_date k = target) ks1"
  let ?t = "mk_key (d_source d) target"
  have def: "trigger_keys d target ks = sort_key k_date (if found then ks1 else ks1 @ [?t])"
    by (simp add: trigger_keys_def ks1_def found_def Let_def)
  have k1: "in_range d target k" if "k \<in> set ks1" for k
    using that assms(2,3) by (auto simp: ks1_def in_range_def not_less split: if_splits)
  have d1: "distinct ks1" using assms(1) by (simp add: ks1_def)
  have new: "in_range d target ?t" using assms(4) by (simp add: in_range_def)
  have old: "?t \<in> set ks1" if found
  proof -
    obtain k where k: "k \<in> set ks1" "k_date k = target" using \<open>found\<close> by (auto simp: found_def list_ex_iff)
    then have "k = ?t" using k1 [of k] by (intro key_eqI) (simp_all add: in_range_def)
    with k(1) show ?thesis by simp
  qed
  have no: "?t \<notin> set ks1" if "\<not> found"
    using that by (force simp: found_def list_ex_iff)
  show "sorted (map k_date (trigger_keys d target ks))" unfolding def by simp
  show "distinct (trigger_keys d target ks)" using d1 no by (cases found) (simp_all add: def)
  show "list_all (in_range d target) (trigger_keys d target ks)"
    using k1 new by (cases found) (auto simp: def list_all_iff)
  have "set ks1 = {k \<in> set ks. in_range d target k}"
    using assms(2,3) by (auto simp: ks1_def in_range_def not_less)
  then show "set (trigger_keys d target ks) = insert ?t {k \<in> set ks. in_range d target k}"
    using old by (cases found) (auto simp: def)
qed

text \<open>What the planner gives the trigger.\<close>

definition planned :: "'h deps \<Rightarrow> collection_date \<Rightarrow> 'h world \<Rightarrow> collection_key list res" where
  "planned d target w = plan (d_catchup d) (d_ctx d (tick w + 1)) (d_ctx d (tick w + 2)) (d_now d (tick w + 1)) (d_source d) target
     (mem (fs_of w))"

text \<open>A trigger either does nothing to the ledger or collects a sorted list of keys of its range.\<close>

lemma handle_shape:
  assumes "request_target d q w = Some target" "ledger_inv (mem (fs_of w))" "handle d q w = ((rs, e), w')"
  shows "(fs_of w' = fs_of w \<and> store_of w' = store_of w \<and>
       (rs = [] \<or> (\<exists>r. rs = [r] \<and> cr_key r = mk_key (d_source d) target \<and> cr_status r = StatusSkipped \<and> target < d_since d))) \<or>
     (\<exists>ks ks0. sorted (map k_date ks) \<and> distinct ks \<and> list_all (in_range d target) ks \<and> planned d target w = Inr ks0 \<and>
        set ks = insert (mk_key (d_source d) target) {k \<in> set ks0. in_range d target k} \<and>
        rs = fst (snd (collect_keys d True ks (ticked 3 w))) \<and>
        w' = snd (snd (snd (collect_keys d True ks (ticked 3 w)))))"
proof -
  obtain t where t: "resolve_policy (d_policy d) (d_zone d) (d_now d (tick w)) = Inr t"
    and q: "(case q of None \<Rightarrow> t | Some x \<Rightarrow> x) = target"
    using assms(1) by (auto simp: request_target_def split: sum.splits option.splits)
  let ?p = "plan (d_catchup d) (d_ctx d (tick w + 1)) (d_ctx d (tick w + 2)) (d_now d (tick w + 1)) (d_source d) target
    (mem (fs_of w))"
  show ?thesis
  proof (cases ?p)
    case (Inl x)
    then show ?thesis using assms(3) t q by (auto simp: handle_def Let_def simp del: One_nat_def)
  next
    case (Inr ks0)
    note range = plan_range [OF Inr assms(2)]
    show ?thesis
    proof (cases "\<not> is_zero_date (d_since d) \<and> date_before target (d_since d)")
      case True
      then show ?thesis using assms(3) t q Inr by (auto simp: handle_def Let_def simp del: One_nat_def)
    next
      case False
      have d0: "distinct ks0" using range(3) [of "hd ks0"] by (cases ks0) auto
      obtain c rs1 fails w1 where k: "collect_keys d True (trigger_keys d target ks0) (ticked 3 w) = (c, rs1, fails, w1)"
        by (metis prod_cases4)
      have "rs = rs1" "w' = w1" using assms(3) False t q Inr k by (auto simp: handle_def Let_def simp del: One_nat_def)
      then have w: "rs = fst (snd (collect_keys d True (trigger_keys d target ks0) (ticked 3 w)))"
        "w' = snd (snd (snd (collect_keys d True (trigger_keys d target ks0) (ticked 3 w))))" using k by simp_all
      have "planned d target w = Inr ks0" unfolding planned_def by (rule Inr)
      moreover have "is_zero_date (d_since d) \<or> d_since d \<le> target" using False by auto
      ultimately show ?thesis using trigger_keys_spec [OF d0 range(1) range(2)] w by blast
    qed
  qed
qed

lemma subseq_members: "subseq xs ys \<Longrightarrow> set xs \<subseteq> set ys"
  by (induction rule: list_emb.induct) auto

lemma subseq_sorted: "subseq xs ys \<Longrightarrow> sorted ys \<Longrightarrow> sorted (xs :: 'a :: linorder list)"
  by (induction rule: list_emb.induct) (auto dest!: subseq_members)

lemma subseq_distinct: "subseq xs ys \<Longrightarrow> distinct ys \<Longrightarrow> distinct xs"
  by (induction rule: list_emb.induct) (auto dest!: subseq_members)

text \<open>C23. A trigger stays in its plan: there is a list of distinct keys in calendar order, which is empty
or holds the target and the planned dates of the source from its first date up to the target, such
that the results are for keys of this list, in its order, and no other key, inside the range or not,
changes its status or its completed files. The one answer for a key that is not in the list is
Skipped, for a target before the source's first date, and then nothing changes at all.\<close>

theorem trigger_stays_in_range:
  assumes "request_target d q w = Some target" "mem (fs_of w) = fold apply_op ops new_memory"
    and "handle d q w = ((rs, e), w')"
  shows "\<exists>ks. sorted (map k_date ks) \<and> distinct ks \<and> list_all (in_range d target) ks \<and>
    (ks = [] \<or> (\<exists>ks0. planned d target w = Inr ks0 \<and>
       set ks = insert (mk_key (d_source d) target) {k \<in> set ks0. in_range d target k})) \<and>
    (subseq (map cr_key rs) ks \<or>
     (ks = [] \<and> (\<exists>r. rs = [r] \<and> cr_key r = mk_key (d_source d) target \<and> cr_status r = StatusSkipped \<and> target < d_since d))) \<and>
    sorted (map (\<lambda>r. k_date (cr_key r)) rs) \<and> distinct (map cr_key rs) \<and>
    (\<forall>k. k \<in> set ks \<or>
       (mem_status_of k (mem (fs_of w')) = mem_status_of k (mem (fs_of w)) \<and>
        (\<forall>f. mem_finished k f (mem (fs_of w')) = mem_finished k f (mem (fs_of w)))))"
proof -
  have "ledger_inv (mem (fs_of w))" unfolding assms(2) by (rule memory.inv_steps) simp
  from handle_shape [OF assms(1) this assms(3)] show ?thesis
  proof (elim disjE exE conjE)
    fix ks ks0
    let ?c = "collect_keys d True ks (ticked 3 w)"
    assume ks: "sorted (map k_date ks)" "distinct ks" "list_all (in_range d target) ks" "planned d target w = Inr ks0"
      "set ks = insert (mk_key (d_source d) target) {k \<in> set ks0. in_range d target k}"
      and rs: "rs = fst (snd ?c)" and w': "w' = snd (snd (snd ?c))"
    have sub: "subseq (map cr_key rs) ks" unfolding rs by (rule keys_of_results)
    have "sorted (map k_date (map cr_key rs))"
      by (rule subseq_sorted [OF subseq_map [OF sub] ks(1)])
    moreover have "distinct (map cr_key rs)" using sub ks(2) by (rule subseq_distinct)
    moreover have "mem_status_of k (mem (fs_of w')) = mem_status_of k (mem (fs_of w)) \<and>
        (\<forall>f. mem_finished k f (mem (fs_of w')) = mem_finished k f (mem (fs_of w)))"
      if "k \<notin> set ks" for k
    proof -
      have o: "only_ops (\<lambda>op. \<exists>j \<in> set ks. op_key op = Some j) w w'"
        unfolding w' using ops_keys [of ks "ticked 3 w" d True] by simp
      have "op_key op \<noteq> Some k" if "\<exists>j \<in> set ks. op_key op = Some j" for op using that \<open>k \<notin> set ks\<close> by auto
      from other_key_ops [OF o this] show ?thesis by blast
    qed
    ultimately show ?thesis using ks sub by (intro exI [of _ ks]) (auto simp: comp_def)
  next
    assume "fs_of w' = fs_of w" "rs = []"
    then show ?thesis by (intro exI [of _ "[]"]) simp
  next
    fix r
    assume "fs_of w' = fs_of w" "rs = [r]" "cr_key r = mk_key (d_source d) target" "cr_status r = StatusSkipped"
      "target < d_since d"
    then show ?thesis by (intro exI [of _ "[]"]) simp
  qed
qed

theorem trigger_stays_in_range_witness:
  "\<exists>rs e w'. handle (with_memory plant) (Some day_1) sample_start = ((rs, e), w') \<and>
     sorted (map (\<lambda>r. k_date (cr_key r)) rs) \<and> mem_status_of key_2 (mem (fs_of w')) = None"
proof -
  obtain rs e w' where h: "handle (with_memory plant) (Some day_1) sample_start = ((rs, e), w')"
    by (metis prod.exhaust)
  have t: "request_target (with_memory plant) (Some day_1) sample_start = Some day_1"
    by (simp add: request_target_def with_memory_def plant_def resolve_policy_def day_1_def is_zero_date_def)
  have m: "mem (fs_of sample_start) = fold apply_op [] new_memory" by (simp add: sample_accepting)
  have out: "\<not> in_range (with_memory plant) day_1 key_2"
    by (simp add: in_range_def key_2_def day_1_def day_2_def less_eq_collection_date_def)
  from trigger_stays_in_range [OF t m h] obtain ks where ks: "list_all (in_range (with_memory plant) day_1) ks"
    "sorted (map (\<lambda>r. k_date (cr_key r)) rs)"
    "\<forall>k. k \<in> set ks \<or> mem_status_of k (mem (fs_of w')) = mem_status_of k (mem (fs_of sample_start))"
    by blast
  from ks(1) out have "key_2 \<notin> set ks" by (auto simp: list_all_iff)
  with ks h show ?thesis by (auto simp: sample_accepting mem_status_of_def new_memory_def)
qed

section \<open>Dates without files\<close>


lemma nothing_there:
  assumes "d_ctx d (tick w + 2) = None" "d_list d (tick w + 1) key = Inl x" "err_is (d_platform d) x err_not_found"
  shows "\<exists>res w'. collect_one d key w = (Some res, w') \<and> cr_status res = StatusSkipped \<and> store_of w' = store_of w \<and>
    mem_status_of key (mem (fs_of w')) = None"
  using assms by (auto simp: collect_one_def end_collection_def Let_def st_ledger mem_defs mem_status_of_def)

text \<open>C28. Without files there is no record: a date for which the source has nothing leaves no record
in the ledger and is Skipped; one whose files are still changing is Pending and leaves the ledger as
it was; one with no matching file is Skipped and loses at most a Skipped or Pending record. None of
them stores a row.\<close>

theorem no_record_without_files:
  assumes "d_ctx d (tick w + 2) = None" "d_list d (tick w + 1) key = listed"
    and "case listed of Inl x \<Rightarrow> err_is (d_platform d) x err_not_found \<or> err_is (d_platform d) x err_file_unstable
         | Inr fs \<Rightarrow> fs = []"
  shows "\<exists>res w'. collect_one d key w = (Some res, w') \<and> store_of w' = store_of w \<and> cr_files res = [] \<and>
    (case listed of
       Inl x \<Rightarrow> if err_is (d_platform d) x err_not_found
         then cr_status res = StatusSkipped \<and> mem_status_of key (mem (fs_of w')) = None
         else cr_status res = StatusPending \<and> fs_of w' = fs_of w
     | Inr fs \<Rightarrow> cr_status res = StatusSkipped \<and>
         mem_status_of key (mem (fs_of w')) =
           (if mem_status_of key (mem (fs_of w)) \<in> {Some StatusSkipped, Some StatusPending} then None
            else mem_status_of key (mem (fs_of w))))"
proof (cases listed)
  case (Inl x)
  with assms show ?thesis
    by (auto simp: collect_one_def end_collection_def Let_def st_ledger mem_defs mem_status_of_def)
next
  case (Inr fs)
  with assms show ?thesis
    by (auto simp: collect_one_def end_collection_def Let_def st_ledger mem_defs mem_status_of_def)
qed

theorem no_record_without_files_witness:
  "\<exists>res w'. collect_one (plant\<lparr>d_list := \<lambda>t k. Inl err_file_unstable\<rparr>) key_1 sample_start = (Some res, w') \<and>
     cr_status res = StatusPending \<and> fs_of w' = fs_of sample_start"
  using no_record_without_files [of "plant\<lparr>d_list := \<lambda>t k. Inl err_file_unstable\<rparr>" sample_start key_1, OF _ refl]
  by (auto simp: plant_def err_file_unstable_def err_not_found_def)

section \<open>A begin that could not be saved\<close>




end
