(* ===== verification/CollectorBatches.thy ===== *)
theory CollectorBatches
  imports CollectorProgress
begin

text \<open>
  How the executor cuts a file into batches, seen from the memory storage: the batches it has
  accepted are numbered from one, all full except the last, and add up to the file's count.
\<close>

lemma batch_size_pos: "batch_size d > 0"
  by (simp add: batch_size_def)

lemma with_memory_sel [simp]: "batch_size (with_memory d) = batch_size d" "d_write (with_memory d) t = mem_write (d_now d t)"
  by (simp_all add: with_memory_def batch_size_def)

lemma record_batches: "ms_batches (fold (store_record now b) rs h) = ms_batches h"
  by (induction rs arbitrary: h) (simp_all add: store_record_def Let_def)

lemma mem_write_batches:
  "mem_write now c b h = (Inl e, h') \<Longrightarrow> h' = h"
  "mem_write now c b h = (Inr u, h') \<Longrightarrow>
     \<exists>x. ms_batches h' = ms_batches h @ [x] \<and> sb_key x = b_key b \<and> sb_file x = b_file b \<and>
       sb_sequence x = b_sequence b \<and> sb_records x = length (b_records b)"
  by (auto simp: mem_write_def Let_def record_batches split: option.splits if_splits)

text \<open>The batches a part of a file has added, from one sequence number on, of given lengths.\<close>

definition added :: "collection_key \<Rightarrow> file_identity \<Rightarrow> nat \<Rightarrow> nat list \<Rightarrow> mem_store \<Rightarrow> mem_store \<Rightarrow> bool" where
  "added key file sq ns h h' \<longleftrightarrow>
     (\<exists>bs. ms_batches h' = ms_batches h @ bs \<and> list_all (\<lambda>b. sb_key b = key \<and> sb_file b = file) bs \<and>
        map sb_sequence bs = [Suc sq..<Suc sq + length bs] \<and> map sb_records bs = ns)"

lemma added_nil [simp]: "added key file sq [] h h' \<longleftrightarrow> ms_batches h' = ms_batches h"
  by (auto simp: added_def)

lemma added_append:
  assumes "added key file sq ns h h1" "added key file (sq + length ns) ms h1 h2"
  shows "added key file sq (ns @ ms) h h2"
proof -
  obtain bs cs where b: "ms_batches h1 = ms_batches h @ bs" "list_all (\<lambda>b. sb_key b = key \<and> sb_file b = file) bs"
      "map sb_sequence bs = [Suc sq..<Suc sq + length bs]" "map sb_records bs = ns"
    and c: "ms_batches h2 = ms_batches h1 @ cs" "list_all (\<lambda>b. sb_key b = key \<and> sb_file b = file) cs"
      "map sb_sequence cs = [Suc (sq + length ns)..<Suc (sq + length ns) + length cs]" "map sb_records cs = ms"
    using assms by (auto simp: added_def)
  have "length ns = length bs" using b(4) by auto
  then have "map sb_sequence (bs @ cs) = [Suc sq..<Suc sq + length (bs @ cs)]"
    using b(3) c(3) upt_add_eq_append [of "Suc sq" "Suc sq + length bs" "length cs"] by (simp add: add_ac)
  with b c show ?thesis by (auto simp: added_def intro!: exI [of _ "bs @ cs"])
qed

lemma write_batch_added:
  assumes "write_batch (with_memory d) key file md header (sq, pend, n) w = (e, (sq', pend', n'), w')"
  shows "(e = None \<and> pend' = [] \<and> n' = n + length pend \<and> sq' = (if pend = [] then sq else sq + 1) \<and>
      added key file sq (if pend = [] then [] else [length pend]) (store_of w) (store_of w')) \<or>
    (e \<noteq> None \<and> n' = n \<and> added key file sq [] (store_of w) (store_of w'))"
proof (cases "pend = []")
  case False
  let ?b = "\<lparr>b_key = key, b_file = file, b_metadata = md_clone md, b_records = pend, b_sequence = sq + 1,
     b_header = header, b_created = d_now (with_memory d) (tick w)\<rparr>"
  obtain r h where r: "mem_write (d_now d (tick w)) (d_ctx (with_memory d) (tick w)) ?b (store_of w) = (r, h)" by fastforce
  show ?thesis
  proof (cases r)
    case (Inl x)
    with assms False r mem_write_batches(1) [OF r [unfolded Inl]] show ?thesis by (auto simp: write_batch_def Let_def)
  next
    case (Inr u)
    from mem_write_batches(2) [OF r [unfolded Inr]] have "added key file sq [length pend] (store_of w) h"
      by (auto simp: added_def)
    with assms False r Inr show ?thesis by (auto simp: write_batch_def Let_def)
  qed
qed (use assms in \<open>simp add: write_batch_def\<close>)

lemma feed_added:
  assumes "feed (with_memory d) key file md header rows (sq, pend, n) w = (e, (sq', pend', n'), w')"
    and "int (length pend) < batch_size d"
  shows "\<exists>m. added key file sq (replicate m (nat (batch_size d))) (store_of w) (store_of w') \<and>
    n' = n + m * nat (batch_size d) \<and> (e = None \<longrightarrow> sq' = sq + m \<and> int (length pend') < batch_size d)"
  using assms
proof (induction rows arbitrary: sq pend n w)
  case Nil
  then show ?case by (intro exI [of _ 0]) simp
next
  case (Cons r rs)
  show ?case
  proof (cases "int (length (pend @ [r])) \<ge> batch_size d")
    case False
    with Cons.prems Cons.IH [of sq "pend @ [r]" n w] show ?thesis by simp
  next
    case True
    then have len: "length (pend @ [r]) = nat (batch_size d)" using Cons.prems(2) by simp
    obtain e1 sq1 pend1 n1 w1 where wb:
      "write_batch (with_memory d) key file md header (sq, pend @ [r], n) w = (e1, (sq1, pend1, n1), w1)"
      by (metis prod_cases3)
    note a = write_batch_added [OF wb]
    show ?thesis
    proof (cases e1)
      case (Some x)
      with Cons.prems(1) True wb a show ?thesis by (intro exI [of _ 0]) auto
    next
      case None
      with Cons.prems(1) True wb have
        f: "feed (with_memory d) key file md header rs (sq1, pend1, n1) w1 = (e, (sq', pend', n'), w')" by simp
      from a None have p: "pend1 = []" "n1 = n + nat (batch_size d)" "sq1 = sq + 1"
        and ad: "added key file sq [nat (batch_size d)] (store_of w) (store_of w1)" using len by auto
      from Cons.IH [OF f] p(1) batch_size_pos [of d] obtain m where m:
        "added key file sq1 (replicate m (nat (batch_size d))) (store_of w1) (store_of w')"
        "n' = n1 + m * nat (batch_size d)" "e = None \<longrightarrow> sq' = sq1 + m \<and> int (length pend') < batch_size d" by auto
      from added_append [OF ad, of "replicate m (nat (batch_size d))"] m p show ?thesis
        by (intro exI [of _ "Suc m"]) auto
    qed
  qed
qed

definition cut :: "nat \<Rightarrow> nat list \<Rightarrow> bool" where
  "cut lim ns \<longleftrightarrow> list_all (\<lambda>n. n = lim) (butlast ns) \<and> (ns \<noteq> [] \<longrightarrow> 0 < last ns \<and> last ns \<le> lim)"

lemma cut_replicate: "0 < lim \<Longrightarrow> cut lim (replicate m lim)"
  by (cases m) (auto simp: cut_def list_all_iff dest: in_set_butlastD)

lemma cut_rest: "0 < k \<Longrightarrow> k \<le> lim \<Longrightarrow> cut lim (replicate m lim @ [k])"
  by (simp add: cut_def list_all_iff)

definition cut_file :: "'h deps \<Rightarrow> collection_key \<Rightarrow> file_identity \<Rightarrow> mem_store \<Rightarrow> file_result \<times> mem_store world \<Rightarrow> bool" where
  "cut_file d key file h r \<longleftrightarrow>
     (\<exists>ns. added key file 0 ns h (store_of (snd r)) \<and> cut (nat (batch_size d)) ns \<and> fr_records (fst r) = sum_list ns)"


lemma fail_store [simp]: "store_of (snd (fail_file d key file fr msg w)) = store_of w"
  "fr_records (fst (fail_file d key file fr msg w)) = fr_records fr"
  by (simp_all add: fail_file_def)

lemma finish_store [simp]:
  "store_of (snd (finish_file d key file fr n w)) = store_of w" "fr_records (fst (finish_file d key file fr n w)) = n"
  by (auto simp: finish_file_def Let_def case_prod_beta split: option.split sum.split)

lemma cut_store: "cut_file d key file (store_of w) (store_file (with_memory d) key file fr md doc w)"
proof -
  let ?lim = "nat (batch_size d)"
  have pos: "0 < ?lim" using batch_size_pos [of d] by simp
  obtain e sq pend n w1 where f:
    "feed (with_memory d) key file md (p_header doc) (p_rows doc) (0, [], 0) w = (e, (sq, pend, n), w1)"
    by (metis prod_cases3)
  obtain e2 sq2 pend2 n2 w2 where b:
    "write_batch (with_memory d) key file md (p_header doc) (sq, pend, n) w1 = (e2, (sq2, pend2, n2), w2)"
    by (metis prod_cases3)
  from feed_added [OF f] pos obtain m where m: "added key file 0 (replicate m ?lim) (store_of w) (store_of w1)"
    "n = m * ?lim" "e = None \<longrightarrow> sq = m \<and> length pend < ?lim" by fastforce
  have full: "\<exists>ns. added key file 0 ns (store_of w) (store_of w1) \<and> cut ?lim ns \<and> n = sum_list ns"
    using m cut_replicate [OF pos] by (intro exI [of _ "replicate m ?lim"]) (simp add: sum_list_replicate)
  have rest: "\<exists>ns. added key file 0 ns (store_of w) (store_of w2) \<and> cut ?lim ns \<and> n2 = sum_list ns" if "e = None"
  proof (cases "e2 = None \<and> pend \<noteq> []")
    case True
    with write_batch_added [OF b] that m have
      "added key file 0 (replicate m ?lim @ [length pend]) (store_of w) (store_of w2)" "n2 = n + length pend"
      by (auto intro!: added_append [OF m(1)])
    with m True that cut_rest [of "length pend" ?lim m] show ?thesis
      by (intro exI [of _ "replicate m ?lim @ [length pend]"]) (simp add: sum_list_replicate)
  next
    case False
    with write_batch_added [OF b] have "n2 = n" "ms_batches (store_of w2) = ms_batches (store_of w1)" by auto
    with full show ?thesis by (simp add: added_def)
  qed
  show ?thesis
    using full rest by (auto simp: cut_file_def store_file_def f b split: option.split)
qed

lemma cut_same: "store_of (snd r) = h \<Longrightarrow> fr_records (fst r) = 0 \<Longrightarrow> cut_file d key file h r"
  by (auto simp: cut_file_def cut_def intro!: exI [of _ "[]"])

lemma cut_collect: "cut_file d key file (store_of w) (collect_file (with_memory d) key file w)"
proof -
  have s: "cut_file d key file (store_of w) (store_file (with_memory d) key file fr md doc
      (observe (EvFileStarted key file) (ticked 4 w)))" for fr md doc
    using cut_store [of d key "file" "observe (EvFileStarted key file) (ticked 4 w)"] by simp
  show ?thesis
    by (auto simp: collect_file_def Let_def s intro!: cut_same split: option.split sum.split bool.split)
qed

lemma plant_sel [simp]: "batch_size plant = 1" "d_ctx (with_memory plant) t = None"
  by (simp_all add: batch_size_def with_memory_def plant_def)

lemma sample_write:
  assumes "accepting (store_of w)"
  obtains w' where "write_batch (with_memory plant) key f md hdr (sq, [r], n) w = (None, (sq + 1, [], n + 1), w')"
    "accepting (store_of w')"
  using accepting_write [OF assms]
  by (auto simp: write_batch_def Let_def case_prod_beta split: sum.splits)

lemma sample_store:
  assumes "accepting (store_of w)"
  shows "fr_records (fst (store_file (with_memory plant) key f fr md two_rows w)) = 2"
proof -
  let ?r1 = "\<lparr>row_number = 1, row_fields = [''10'']\<rparr>" and ?r2 = "\<lparr>row_number = 2, row_fields = [''20'']\<rparr>"
  obtain w1 where 1: "write_batch (with_memory plant) key f md [''v''] (0, [?r1], 0) w = (None, (0 + 1, [], 0 + 1), w1)"
    "accepting (store_of w1)" using sample_write [OF assms] .
  obtain w2 where 2: "write_batch (with_memory plant) key f md [''v''] (0 + 1, [?r2], 0 + 1) w1 = (None, (0 + 1 + 1, [], 0 + 1 + 1), w2)"
    "accepting (store_of w2)" using sample_write [OF 1(2)] .
  have "feed (with_memory plant) key f md [''v''] [?r1, ?r2] (0, [], 0) w = (None, (2, [], 2), w2)"
    using 1(1) 2(1) by simp
  then show ?thesis by (simp add: store_file_def two_rows_def write_batch_def)
qed

lemma sample_rows: "fr_records (fst (collect_file (with_memory plant) key_1 file_a sample_start)) = 2"
proof -
  have nd: "mem_file_completed None key_1 file_a new_memory = Inr False"
    by (simp add: mem_file_completed_def new_memory_def Let_def)
  have d: "d_extract (with_memory plant) = None" "d_read (with_memory plant) t f = None"
    "d_parse (with_memory plant) t f = Inr two_rows" for t f
    by (simp_all add: with_memory_def plant_def)
  show ?thesis by (simp add: collect_file_def Let_def nd d sample_store sample_accepting)
qed

text \<open>C27. Batches: collecting a file adds to the storage batches of this date and file only, numbered
from 1 without a gap, every one but the last of exactly the configured size, the last one not
empty and not larger; the rows they hold are the count the file's result reports, whether or
not the file succeeds.\<close>

theorem batches_are_cut:
  "\<exists>bs. ms_batches (store_of (snd (collect_file (with_memory d) key file w))) = ms_batches (store_of w) @ bs \<and>
     list_all (\<lambda>b. sb_key b = key \<and> sb_file b = file) bs \<and> map sb_sequence bs = [1..<Suc (length bs)] \<and>
     list_all (\<lambda>b. int (sb_records b) = batch_size d) (butlast bs) \<and>
     (bs \<noteq> [] \<longrightarrow> 0 < sb_records (last bs) \<and> int (sb_records (last bs)) \<le> batch_size d) \<and>
     fr_records (fst (collect_file (with_memory d) key file w)) = sum_list (map sb_records bs)"
proof -
  obtain bs where b: "ms_batches (store_of (snd (collect_file (with_memory d) key file w))) = ms_batches (store_of w) @ bs"
    "list_all (\<lambda>b. sb_key b = key \<and> sb_file b = file) bs" "map sb_sequence bs = [1..<Suc (length bs)]"
    "cut (nat (batch_size d)) (map sb_records bs)"
    "fr_records (fst (collect_file (with_memory d) key file w)) = sum_list (map sb_records bs)"
    using cut_collect [of d key "file" w] by (auto simp: cut_file_def added_def)
  then show ?thesis
    using batch_size_pos [of d]
    by (intro exI [of _ bs]) (auto simp: cut_def map_butlast [symmetric] last_map list_all_iff)
qed

theorem batches_are_cut_witness:
  "\<exists>a b. ms_batches (store_of (snd (collect_file (with_memory plant) key_1 file_a sample_start))) = [a, b] \<and>
     sb_sequence a = 1 \<and> sb_sequence b = 2 \<and> sb_records a = 1 \<and> sb_records b = 1"
proof -
  have e: "ms_batches (store_of sample_start) = []"
    by (simp add: sample_start_def start_world_def new_mem_store_def)
  obtain bs where b: "ms_batches (store_of (snd (collect_file (with_memory plant) key_1 file_a sample_start))) = bs"
    "map sb_sequence bs = [1..<Suc (length bs)]" "list_all (\<lambda>b. sb_records b = 1) (butlast bs)"
    "bs \<noteq> [] \<longrightarrow> sb_records (last bs) = 1" "sum_list (map sb_records bs) = 2"
    using batches_are_cut [of plant key_1 file_a sample_start] e sample_rows
      plant_sel(1) by auto
  have "bs \<noteq> []" using b(5) by auto
  then have one: "\<forall>b \<in> set bs. sb_records b = 1"
    using b(3,4) by (cases bs rule: rev_cases) (auto simp: list_all_iff)
  then have "map sb_records bs = replicate (length bs) 1" by (auto simp: map_replicate_const [symmetric])
  then have "length bs = 2" using b(5) by (simp add: sum_list_replicate)
  then obtain x y where "bs = [x, y]" by (auto simp: length_Suc_conv numeral_2_eq_2)
  with b one show ?thesis by (auto simp: numeral_2_eq_2)
qed

end
