(* ===== verification/Redact.thy ===== *)
theory Redact
  imports GoModel
begin

text \<open>
  Secrets in displayed configurations (app/host/redact.go, app/host/fleet_redact.go): the display
  copy in which every sensitive value is a sentinel, and the restoration of the stored values when
  an edited display copy is written back. A Go map is an association list with distinct keys; a
  value that is neither a map, a list nor a string is kept as its text.
\<close>

section \<open>Display copies\<close>

datatype cfg = CMap "(string \<times> cfg) list" | CList "cfg list" | CStr string | CRaw string

definition redacted_sentinel :: string where
  "redacted_sentinel = ''__REDACTED__''"

text \<open>
  The pattern: one of the words at some position, ignoring case as Go's \<open>(?i)\<close> does, where the
  long s (bytes C5 BF) is also an s and the Kelvin sign (E2 84 AA) also a k.
\<close>

definition sensitive_words :: "string list" where
  "sensitive_words = [''dsn'', ''password'', ''passwd'', ''secret'', ''token'', ''credential'', ''connection_string'']"

definition upper_char :: "char \<Rightarrow> char" where
  "upper_char c = (if 97 \<le> (of_char c :: nat) \<and> (of_char c :: nat) \<le> 122 then char_of (of_char c - 32 :: nat) else c)"

fun eat :: "char \<Rightarrow> string \<Rightarrow> string option" where
  "eat p [] = None"
| "eat p (c # s) =
     (if c = p \<or> c = upper_char p then Some s
      else if p = CHR ''s'' \<and> c = CHR 0xC5 then (case s of d # s1 \<Rightarrow> if d = CHR 0xBF then Some s1 else None | [] \<Rightarrow> None)
      else if p = CHR ''k'' \<and> c = CHR 0xE2 then
        (case s of d # e # s1 \<Rightarrow> if d = CHR 0x84 \<and> e = CHR 0xAA then Some s1 else None | _ \<Rightarrow> None)
      else None)"

fun starts_fold :: "string \<Rightarrow> string \<Rightarrow> bool" where
  "starts_fold [] s \<longleftrightarrow> True"
| "starts_fold (p # w) s \<longleftrightarrow> (case eat p s of None \<Rightarrow> False | Some s1 \<Rightarrow> starts_fold w s1)"

fun sensitive :: "string \<Rightarrow> bool" where
  "sensitive [] \<longleftrightarrow> False"
| "sensitive (c # s) \<longleftrightarrow> list_ex (\<lambda>w. starts_fold w (c # s)) sensitive_words \<or> sensitive s"

fun redact_map :: "(string \<times> cfg) list \<Rightarrow> (string \<times> cfg) list"
  and redact_slice :: "cfg list \<Rightarrow> cfg list"
  and redact_value :: "cfg \<Rightarrow> cfg" where
  "redact_map [] = []"
| "redact_map ((k, v) # m) =
     (k, if sensitive k then CStr redacted_sentinel else redact_value v) # redact_map m"
| "redact_slice [] = []"
| "redact_slice (v # vs) = redact_value v # redact_slice vs"
| "redact_value (CMap m) = CMap (redact_map m)"
| "redact_value (CList vs) = CList (redact_slice vs)"
| "redact_value (CStr s) = CStr s"
| "redact_value (CRaw s) = CRaw s"

text \<open>A component: its other fields, and its configuration, which may be the nil map.\<close>

definition redact_config_for_display ::
  "('r \<times> (string \<times> cfg) list option) list \<Rightarrow> ('r \<times> (string \<times> cfg) list option) list" where
  "redact_config_for_display cs = map (\<lambda>(r, m). (r, map_option redact_map m)) cs"

section \<open>Restoring\<close>

fun restore_map :: "(string \<times> cfg) list \<Rightarrow> (string \<times> cfg) list \<Rightarrow> (string \<times> cfg) list"
  and restore_slice :: "cfg list \<Rightarrow> cfg list \<Rightarrow> cfg list"
  and restore_value :: "cfg option \<Rightarrow> cfg \<Rightarrow> cfg" where
  "restore_map st [] = []"
| "restore_map st ((k, v) # m) = (k, restore_value (map_of st k) v) # restore_map st m"
| "restore_slice st [] = []"
| "restore_slice [] (v # vs) = v # vs"
| "restore_slice (s # st) (v # vs) = restore_value (Some s) v # restore_slice st vs"
| "restore_value sv (CMap m) = CMap (restore_map (case sv of Some (CMap sm) \<Rightarrow> sm | _ \<Rightarrow> []) m)"
| "restore_value sv (CList vs) =
     (case sv of Some (CList sl) \<Rightarrow> CList (restore_slice sl vs) | _ \<Rightarrow> CList vs)"
| "restore_value sv (CStr s) = (if s = redacted_sentinel then (case sv of Some v \<Rightarrow> v | None \<Rightarrow> CStr s) else CStr s)"
| "restore_value sv (CRaw s) = CRaw s"

section \<open>The fleet declaration\<close>

definition row_id :: "string \<Rightarrow> (string \<times> cfg) list \<Rightarrow> string" where
  "row_id key m = (case map_of m key of Some (CStr s) \<Rightarrow> s | _ \<Rightarrow> '''')"

text \<open>The stored rows by their identity; of two rows with one identity the later counts.\<close>

fun by_id :: "string \<Rightarrow> cfg list \<Rightarrow> (string \<times> (string \<times> cfg) list) list" where
  "by_id key [] = []"
| "by_id key (v # vs) =
     (case v of
        CMap m \<Rightarrow> (case map_of m key of
                    Some (CStr s) \<Rightarrow> (if s \<in> set (map fst (by_id key vs)) then by_id key vs else (s, m) # by_id key vs)
                  | _ \<Rightarrow> by_id key vs)
      | _ \<Rightarrow> by_id key vs)"

definition restore_row :: "string \<Rightarrow> cfg list \<Rightarrow> cfg \<Rightarrow> cfg" where
  "restore_row key st v =
     (case v of
        CMap m \<Rightarrow> (case map_of (by_id key st) (row_id key m) of None \<Rightarrow> v | Some sm \<Rightarrow> CMap (restore_map sm m))
      | _ \<Rightarrow> v)"

definition restore_by_identity :: "cfg option \<Rightarrow> string \<Rightarrow> cfg \<Rightarrow> cfg" where
  "restore_by_identity stored key v =
     (case v of
        CList rows \<Rightarrow> CList (map (restore_row key (case stored of Some (CList sl) \<Rightarrow> sl | _ \<Rightarrow> [])) rows)
      | _ \<Rightarrow> v)"

text \<open>Where the first sentinel is left, in the order the entries are visited.\<close>

fun left_map :: "string \<Rightarrow> (string \<times> cfg) list \<Rightarrow> string option"
  and left_slice :: "string \<Rightarrow> nat \<Rightarrow> cfg list \<Rightarrow> string option"
  and left_value :: "string \<Rightarrow> cfg \<Rightarrow> string option" where
  "left_map path [] = None"
| "left_map path ((k, v) # m) =
     (case left_value (path @ ''.'' @ k) v of Some p \<Rightarrow> Some p | None \<Rightarrow> left_map path m)"
| "left_slice path i [] = None"
| "left_slice path i (v # vs) =
     (case left_value (path @ ''['' @ nat_dec i @ '']'') v of Some p \<Rightarrow> Some p | None \<Rightarrow> left_slice path (i + 1) vs)"
| "left_value path (CMap m) = left_map path m"
| "left_value path (CList vs) = left_slice path 0 vs"
| "left_value path (CStr s) = (if s = redacted_sentinel then Some path else None)"
| "left_value path (CRaw s) = None"

definition reject_leftover_sentinels :: "(string \<times> cfg) list \<Rightarrow> string option" where
  "reject_leftover_sentinels m =
     map_option (\<lambda>p. ''new value at '' @ p @ '' is the redaction placeholder '' @
       [CHR 0xE2, CHR 0x80, CHR 0x94] @ '' provide the real value'') (left_map '''' m)"

definition at_key :: "string \<Rightarrow> (cfg \<Rightarrow> cfg) \<Rightarrow> (string \<times> cfg) list \<Rightarrow> (string \<times> cfg) list" where
  "at_key k f m = map (\<lambda>(j, v). (j, if j = k then f v else v)) m"

definition restore_fleet_secrets ::
  "(string \<times> cfg) list \<Rightarrow> (string \<times> cfg) list \<Rightarrow> string + (string \<times> cfg) list" where
  "restore_fleet_secrets incoming stored =
     (let m1 = restore_map stored incoming;
          m2 = at_key ''machines'' (restore_by_identity (map_of stored ''machines'') ''no'') m1;
          m3 = at_key ''sinks'' (restore_by_identity (map_of stored ''sinks'') ''name'') m2
      in case reject_leftover_sentinels m3 of Some e \<Rightarrow> Inl e | None \<Rightarrow> Inr m3)"

section \<open>Well-formed and clean configurations\<close>

text \<open>Keys are distinct, as in a Go map; no string is the sentinel.\<close>

fun wf_cfg_map :: "(string \<times> cfg) list \<Rightarrow> bool"
  and wf_cfg_slice :: "cfg list \<Rightarrow> bool"
  and wf_cfg :: "cfg \<Rightarrow> bool" where
  "wf_cfg_map [] \<longleftrightarrow> True"
| "wf_cfg_map ((k, v) # m) \<longleftrightarrow> k \<notin> fst ` set m \<and> wf_cfg v \<and> wf_cfg_map m"
| "wf_cfg_slice [] \<longleftrightarrow> True"
| "wf_cfg_slice (v # vs) \<longleftrightarrow> wf_cfg v \<and> wf_cfg_slice vs"
| "wf_cfg (CMap m) \<longleftrightarrow> wf_cfg_map m"
| "wf_cfg (CList vs) \<longleftrightarrow> wf_cfg_slice vs"
| "wf_cfg (CStr s) \<longleftrightarrow> True"
| "wf_cfg (CRaw s) \<longleftrightarrow> True"

fun clean_map :: "(string \<times> cfg) list \<Rightarrow> bool"
  and clean_slice :: "cfg list \<Rightarrow> bool"
  and clean_cfg :: "cfg \<Rightarrow> bool" where
  "clean_map [] \<longleftrightarrow> True"
| "clean_map ((k, v) # m) \<longleftrightarrow> clean_cfg v \<and> clean_map m"
| "clean_slice [] \<longleftrightarrow> True"
| "clean_slice (v # vs) \<longleftrightarrow> clean_cfg v \<and> clean_slice vs"
| "clean_cfg (CMap m) \<longleftrightarrow> clean_map m"
| "clean_cfg (CList vs) \<longleftrightarrow> clean_slice vs"
| "clean_cfg (CStr s) \<longleftrightarrow> s \<noteq> redacted_sentinel"
| "clean_cfg (CRaw s) \<longleftrightarrow> True"

text \<open>Two configurations that differ at most in the values under sensitive keys.\<close>

fun public_eq_map :: "(string \<times> cfg) list \<Rightarrow> (string \<times> cfg) list \<Rightarrow> bool"
  and public_eq_slice :: "cfg list \<Rightarrow> cfg list \<Rightarrow> bool"
  and public_eq :: "cfg \<Rightarrow> cfg \<Rightarrow> bool" where
  "public_eq_map [] [] \<longleftrightarrow> True"
| "public_eq_map ((k, v) # m) ((k', v') # m') \<longleftrightarrow> k = k' \<and> (sensitive k \<or> public_eq v v') \<and> public_eq_map m m'"
| "public_eq_map _ _ \<longleftrightarrow> False"
| "public_eq_slice [] [] \<longleftrightarrow> True"
| "public_eq_slice (v # vs) (v' # vs') \<longleftrightarrow> public_eq v v' \<and> public_eq_slice vs vs'"
| "public_eq_slice _ _ \<longleftrightarrow> False"
| "public_eq (CMap m) (CMap m') \<longleftrightarrow> public_eq_map m m'"
| "public_eq (CList vs) (CList vs') \<longleftrightarrow> public_eq_slice vs vs'"
| "public_eq (CStr s) (CStr s') \<longleftrightarrow> s = s'"
| "public_eq (CRaw s) (CRaw s') \<longleftrightarrow> s = s'"
| "public_eq _ _ \<longleftrightarrow> False"

lemma wf_lookup: "wf_cfg_map m \<Longrightarrow> (k, v) \<in> set m \<Longrightarrow> map_of m k = Some v"
proof (induction m)
  case (Cons p m)
  then show ?case by (cases p) (force simp: image_iff)
qed simp

lemma redact_restored:
  "wf_cfg_map m \<Longrightarrow> (\<And>k v. (k, v) \<in> set m \<Longrightarrow> map_of st k = Some v) \<Longrightarrow> restore_map st (redact_map m) = m"
  "wf_cfg_slice vs \<Longrightarrow> restore_slice vs (redact_slice vs) = vs"
  "wf_cfg v \<Longrightarrow> restore_value (Some v) (redact_value v) = v"
proof (induction m and vs and v arbitrary: st rule: redact_map_redact_slice_redact_value.induct)
  case (2 k v m)
  have "map_of st k = Some v" using "2.prems"(2) [of k v] by simp
  moreover have "restore_map st (redact_map m) = m" using "2.prems" by (intro "2.IH"(2)) auto
  moreover have "restore_value (Some v) (redact_value v) = v" if "\<not> sensitive k" using "2.IH"(1) "2.prems"(1) that by simp
  ultimately show ?case by simp
next
  case (5 m)
  then show ?case using wf_lookup by simp
qed auto

lemma public_redact:
  "public_eq_map m m' \<longleftrightarrow> redact_map m = redact_map m'"
  "public_eq_slice vs vs' \<longleftrightarrow> redact_slice vs = redact_slice vs'"
  "public_eq v v' \<longleftrightarrow> redact_value v = redact_value v'"
  by (induction m m' and vs vs' and v v' rule: public_eq_map_public_eq_slice_public_eq.induct) auto

lemma redact_idem:
  "redact_map (redact_map m) = redact_map m" "redact_slice (redact_slice vs) = redact_slice vs"
  "redact_value (redact_value v) = redact_value v"
  by (induction m and vs and v rule: redact_map_redact_slice_redact_value.induct) auto

lemma clean_restore:
  "clean_map m \<Longrightarrow> restore_map st m = m" "clean_slice vs \<Longrightarrow> restore_slice ss vs = vs"
  "clean_cfg v \<Longrightarrow> restore_value sv v = v"
  by (induction st m and ss vs and sv v rule: restore_map_restore_slice_restore_value.induct)
    (auto split: option.split cfg.split)

lemma clean_left:
  "left_map p m = None \<longleftrightarrow> clean_map m" "left_slice p i vs = None \<longleftrightarrow> clean_slice vs"
  "left_value p v = None \<longleftrightarrow> clean_cfg v"
  by (induction p m and p i vs and p v rule: left_map_left_slice_left_value.induct) (auto split: option.split)

lemma clean_member: "clean_map m \<Longrightarrow> (k, v) \<in> set m \<Longrightarrow> clean_cfg v"
  by (induction m) auto

lemma clean_slice_iff: "clean_slice vs \<longleftrightarrow> list_all clean_cfg vs"
  by (induction vs) auto

lemma clean_by_identity: "clean_cfg v \<Longrightarrow> restore_by_identity st key v = v"
proof -
  have "restore_row key sl v = v" if "clean_cfg v" for sl v
    using that clean_restore(1) by (auto simp: restore_row_def split: cfg.split option.split)
  then show "clean_cfg v \<Longrightarrow> restore_by_identity st key v = v"
    by (auto simp: restore_by_identity_def clean_slice_iff list_all_iff intro!: map_idI split: cfg.split)
qed

lemma at_key_same: "(\<And>v. (k, v) \<in> set m \<Longrightarrow> f v = v) \<Longrightarrow> at_key k f m = m"
  by (induction m) (auto simp: at_key_def)

lemma clean_fleet:
  assumes "clean_map m"
  shows "restore_fleet_secrets m stored = Inr m"
proof -
  have a: "at_key k (restore_by_identity st key) m = m" for k st key
    using clean_member [OF assms] clean_by_identity by (intro at_key_same) blast
  have "left_map '''' m = None" using assms by (simp add: clean_left(1))
  then show ?thesis
    unfolding restore_fleet_secrets_def Let_def clean_restore(1) [OF assms] a reject_leftover_sentinels_def by simp
qed

section \<open>What is kept and what is hidden\<close>

text \<open>C31. An untouched display copy restores the configuration: writing the redacted copy of a
configuration back over the stored one gives exactly the stored configuration, secrets included,
for a component and, when no stored string is the sentinel itself, for the fleet declaration.\<close>

theorem display_copy_restores:
  assumes "wf_cfg_map m"
  shows "restore_map m (redact_map m) = m \<and> (clean_map m \<longrightarrow> restore_fleet_secrets (redact_map m) m = Inr m)"
proof -
  have r: "restore_map m (redact_map m) = m" using redact_restored(1) [OF assms] wf_lookup [OF assms] by blast
  moreover have "restore_fleet_secrets (redact_map m) m = restore_fleet_secrets m m" if "clean_map m"
    unfolding restore_fleet_secrets_def r clean_restore(1) [OF that] ..
  ultimately show ?thesis using clean_fleet by auto
qed

definition sample_sinks :: "(string \<times> cfg) list" where
  "sample_sinks = [(''sinks'', CList [CMap [(''name'', CStr ''a''), (''dsn'', CStr ''pw-a'')],
     CMap [(''name'', CStr ''b''), (''dsn'', CStr ''pw-b'')]])]"

theorem display_copy_restores_witness:
  "restore_map sample_sinks (redact_map sample_sinks) = sample_sinks \<and>
   restore_fleet_secrets (redact_map sample_sinks) sample_sinks = Inr sample_sinks"
  using display_copy_restores [of sample_sinks] by (simp add: sample_sinks_def redacted_sentinel_def)

text \<open>C32. A display copy shows no secret: two configurations have the same display copy exactly when
they differ at most in the values under keys that match the pattern of sensitive names, at any
depth of maps and lists, and redacting a display copy again changes nothing.\<close>

theorem display_hides_secrets:
  "(redact_map m = redact_map m' \<longleftrightarrow> public_eq_map m m') \<and> redact_map (redact_map m) = redact_map m"
  by (simp add: public_redact redact_idem)

text \<open>C30. Removing or reordering fleet rows moves secrets: the restoration by position runs first and
leaves no sentinel for the restoration by identity, so when the first of two sinks is removed from
the display copy, or the two are swapped, the secret of one row is stored under the name of the
other.\<close>

theorem edited_rows_get_wrong_secrets:
  assumes "s1 \<noteq> redacted_sentinel" "s2 \<noteq> redacted_sentinel" "n1 \<noteq> redacted_sentinel" "n2 \<noteq> redacted_sentinel"
    and "r1 = [(''name'', CStr n1), (''dsn'', CStr s1)]" "r2 = [(''name'', CStr n2), (''dsn'', CStr s2)]"
    and "stored = [(''sinks'', CList [CMap r1, CMap r2])]"
  shows "restore_fleet_secrets [(''sinks'', CList [CMap (redact_map r2)])] stored =
      Inr [(''sinks'', CList [CMap [(''name'', CStr n2), (''dsn'', CStr s1)]])] \<and>
    restore_fleet_secrets [(''sinks'', CList [CMap (redact_map r2), CMap (redact_map r1)])] stored =
      Inr [(''sinks'', CList [CMap [(''name'', CStr n2), (''dsn'', CStr s1)],
                              CMap [(''name'', CStr n1), (''dsn'', CStr s2)]])]"
proof -
  have k: "\<not> sensitive ''name''" "sensitive ''dsn''" by code_simp+
  have red: "redact_map r1 = [(''name'', CStr n1), (''dsn'', CStr redacted_sentinel)]"
    "redact_map r2 = [(''name'', CStr n2), (''dsn'', CStr redacted_sentinel)]"
    using k by (simp_all add: assms(5,6) del: sensitive.simps)
  have by_position: "restore_fleet_secrets inc stored = Inr m"
    if "restore_map stored inc = m" "clean_map m" for inc m
    using clean_fleet [OF that(2), of stored] that clean_restore(1) [OF that(2), of stored]
    by (simp only: restore_fleet_secrets_def)
  have "restore_fleet_secrets [(''sinks'', CList [CMap (redact_map r2)])] stored =
      Inr [(''sinks'', CList [CMap [(''name'', CStr n2), (''dsn'', CStr s1)]])]"
    unfolding red using assms(1-4) by (intro by_position) (simp_all add: assms(5-7))
  moreover have "restore_fleet_secrets [(''sinks'', CList [CMap (redact_map r2), CMap (redact_map r1)])] stored =
      Inr [(''sinks'', CList [CMap [(''name'', CStr n2), (''dsn'', CStr s1)],
                              CMap [(''name'', CStr n1), (''dsn'', CStr s2)]])]"
    unfolding red using assms(1-4) by (intro by_position) (simp_all add: assms(5-7))
  ultimately show ?thesis ..
qed

theorem edited_rows_get_wrong_secrets_witness:
  "restore_fleet_secrets [(''sinks'', CList [CMap (redact_map [(''name'', CStr ''b''), (''dsn'', CStr ''pw-b'')])])]
     sample_sinks = Inr [(''sinks'', CList [CMap [(''name'', CStr ''b''), (''dsn'', CStr ''pw-a'')]])]"
  using edited_rows_get_wrong_secrets [of "''pw-a''" "''pw-b''" "''a''" "''b''", OF _ _ _ _ refl refl]
  by (simp add: sample_sinks_def redacted_sentinel_def)

end
