(* ===== verification/Paths.thy ===== *)
theory Paths
  imports GoModel GoText
begin

text \<open>
  The part of Go's path/filepath the program uses, on a Unix host, and the relative path of a
  file under its source root (app/metadata/extractor.go). A path is a byte string.
\<close>

section \<open>Clean, Join, Base, Rel\<close>

fun join_path :: "string list \<Rightarrow> string" where
  "join_path [] = ''''"
| "join_path [s] = s"
| "join_path (s # t # ss) = s @ slash # join_path (t # ss)"

text \<open>The elements that remain; the last one kept is on top of the stack.\<close>

fun clean_elems :: "bool \<Rightarrow> string list \<Rightarrow> string list \<Rightarrow> string list" where
  "clean_elems rooted [] st = rev st"
| "clean_elems rooted (e # es) st =
     (if e = '''' \<or> e = ''.'' then clean_elems rooted es st
      else if e = ''..'' then
        (case st of
           t # ts \<Rightarrow> if t = ''..'' then clean_elems rooted es (e # st) else clean_elems rooted es ts
         | [] \<Rightarrow> clean_elems rooted es (if rooted then [] else [e]))
      else clean_elems rooted es (e # st))"

definition rooted :: "string \<Rightarrow> bool" where
  "rooted p \<longleftrightarrow> p \<noteq> '''' \<and> hd p = slash"

definition path_elems :: "string \<Rightarrow> string list" where
  "path_elems p = clean_elems (rooted p) (split_on slash p) []"

definition clean_path :: "string \<Rightarrow> string" where
  "clean_path p =
     (let out = join_path (path_elems p)
      in if rooted p then slash # out else if out = '''' then ''.'' else out)"

definition path_join :: "string list \<Rightarrow> string" where
  "path_join es = (case dropWhile (\<lambda>e. e = '''') es of [] \<Rightarrow> '''' | rest \<Rightarrow> clean_path (join_path rest))"

definition path_base :: "string \<Rightarrow> string" where
  "path_base p =
     (if p = '''' then ''.''
      else (let q = rev (dropWhile (\<lambda>c. c = slash) (rev p)); b = rev (takeWhile (\<lambda>c. c \<noteq> slash) (rev q))
            in if b = '''' then [slash] else b))"

text \<open>\<open>Rel\<close>: the elements of both paths after their common part.\<close>

fun drop_common :: "string list \<Rightarrow> string list \<Rightarrow> string list \<times> string list" where
  "drop_common (b # bs) (t # ts) = (if b = t then drop_common bs ts else (b # bs, t # ts))"
| "drop_common bs ts = (bs, ts)"

definition rel_elems :: "string \<Rightarrow> string list" where
  "rel_elems p = (if p = '''' \<or> p = [slash] then [] else split_on slash (if rooted p then tl p else p))"

definition path_rel :: "string \<Rightarrow> string \<Rightarrow> string res" where
  "path_rel basepath targpath =
     (let base0 = clean_path basepath; targ = clean_path targpath in
      if targ = base0 then Inr ''.''
      else
       (let base = (if base0 = ''.'' then '''' else base0);
            failed = Inl (Wrapped (''Rel: can't make '' @ targpath @ '' relative to '' @ basepath) [])
        in if rooted base \<noteq> rooted targ then failed
           else (case drop_common (rel_elems base) (rel_elems targ) of
                   (bs, ts) \<Rightarrow>
                     if bs \<noteq> [] \<and> hd bs = ''..'' then failed
                     else Inr (join_path (replicate (length bs) ''..'' @ ts)))))"

section \<open>The path below the source root\<close>

definition normalize_separators :: "string \<Rightarrow> string" where
  "normalize_separators p = (if backslash \<in> set p then map (\<lambda>c. if c = backslash then slash else c) p else p)"

definition err_metadata_extraction :: err where
  "err_metadata_extraction = Sentinel ''ErrMetadataExtraction'' ''metadata extraction error''"

definition rel_to_root :: "string \<Rightarrow> string \<Rightarrow> string res" where
  "rel_to_root root full =
     (if root = '''' then Inl (source_error err_metadata_extraction (Wrapped ''empty source root'' []))
      else
       (case path_rel (clean_path (normalize_separators root)) (clean_path (normalize_separators full)) of
          Inl e \<Rightarrow>
            Inl (source_error err_metadata_extraction
              (Wrapped (''cannot relativize file '' @ go_quote full @ '' to source root '' @ go_quote root @ '': '' @ err_text e) []))
        | Inr rel \<Rightarrow>
            if rel = ''.'' \<or> rel = ''..'' \<or> is_prefix ''../'' rel then
              Inl (source_error err_metadata_extraction
                (Wrapped (''file '' @ go_quote full @ '' is outside source root '' @ go_quote root) []))
            else Inr rel))"

section \<open>Facts\<close>

lemma split_on_no_sep: "e \<in> set (split_on c s) \<Longrightarrow> c \<notin> set e"
  by (induction s arbitrary: e) (auto split: if_splits list.splits)

lemma split_on_plain: "c \<notin> set s \<Longrightarrow> split_on c s = [s]"
  by (induction s) auto

lemma split_on_append: "c \<notin> set s \<Longrightarrow> split_on c (s @ c # t) = s # split_on c t"
  by (induction s) auto

lemma split_join: "es \<noteq> [] \<Longrightarrow> \<forall>e \<in> set es. slash \<notin> set e \<Longrightarrow> split_on slash (join_path es) = es"
  by (induction es rule: join_path.induct) (auto simp: split_on_plain split_on_append)

text \<open>Clean elements: not empty, no dot, no slash inside.\<close>

definition plain_elem :: "string \<Rightarrow> bool" where
  "plain_elem e \<longleftrightarrow> e \<noteq> '''' \<and> e \<noteq> ''.'' \<and> slash \<notin> set e"

lemma clean_elems_plain:
  "\<forall>e \<in> set es. slash \<notin> set e \<Longrightarrow> \<forall>e \<in> set st. plain_elem e \<Longrightarrow> \<forall>e \<in> set (clean_elems r es st). plain_elem e"
proof (induction es arbitrary: st)
  case (Cons e es)
  have rest: "\<forall>e \<in> set es. slash \<notin> set e" using Cons.prems(1) by simp
  consider (drop) "e = '''' \<or> e = ''.''" | (up) "e = ''..''" | (keep) "e \<noteq> '''' \<and> e \<noteq> ''.''" "e \<noteq> ''..''" by blast
  then show ?case
  proof cases
    case drop
    with Cons.IH [OF rest Cons.prems(2)] show ?thesis by simp
  next
    case up
    have p: "plain_elem ''..''" by (simp add: plain_elem_def)
    show ?thesis
    proof (cases st)
      case Nil
      with Cons.IH [OF rest, of "[]"] Cons.IH [OF rest, of "[''..'']"] p show ?thesis by (simp add: up)
    next
      case (Cons t ts)
      let ?st = "if t = ''..'' then e # st else ts"
      have eq: "clean_elems r (e # es) st = clean_elems r es ?st" by (simp add: up Cons)
      have "\<forall>x \<in> set st. plain_elem x" "plain_elem e" using Cons.prems(2) p up by simp_all
      then have "\<forall>x \<in> set ?st. plain_elem x" unfolding Cons by (metis list.set_intros(2) set_ConsD)
      from Cons.IH [OF rest this] show ?thesis unfolding eq .
    qed
  next
    case keep
    have "plain_elem e" using keep Cons.prems(1) by (simp add: plain_elem_def)
    with keep Cons.IH [OF rest, of "e # st"] Cons.prems(2) show ?thesis by simp
  qed
qed simp
lemma path_elems_plain: "\<forall>e \<in> set (path_elems p). plain_elem e"
  unfolding path_elems_def by (rule clean_elems_plain) (auto dest: split_on_no_sep)

lemma join_path_rooted: "es \<noteq> [] \<Longrightarrow> plain_elem (hd es) \<Longrightarrow> join_path es \<noteq> [] \<and> hd (join_path es) \<noteq> slash \<and> join_path es \<noteq> ''.''"
proof -
  assume "es \<noteq> []" "plain_elem (hd es)"
  then obtain c e rest where "es = (c # e) # rest" "c \<noteq> slash" "c # e \<noteq> ''.''"
    by (cases es; cases "hd es") (auto simp: plain_elem_def)
  then show ?thesis by (cases rest) auto
qed

lemma join_path_nil: "join_path es = '''' \<longleftrightarrow> es = [] \<or> es = ['''']"
  by (cases es rule: join_path.cases) auto

lemma path_elems_join_nil: "join_path (path_elems p) = '''' \<longleftrightarrow> path_elems p = []"
  using path_elems_plain [of p] by (auto simp: join_path_nil plain_elem_def)

lemma rooted_clean: "rooted (clean_path p) = rooted p"
proof (cases "path_elems p = []")
  case False
  then have "plain_elem (hd (path_elems p))" using path_elems_plain [of p] by auto
  with False join_path_rooted [of "path_elems p"] show ?thesis
    by (auto simp: clean_path_def Let_def rooted_def)
qed (auto simp: clean_path_def rooted_def)

text \<open>The elements \<open>Rel\<close> compares are the cleaned ones; a path that cleans to a dot has the dot as its element.\<close>

lemma rel_elems_clean:
  "rel_elems (clean_path p) = (if clean_path p = ''.'' then [''.''] else path_elems p)"
proof (cases "path_elems p = []")
  case True
  then show ?thesis by (simp add: clean_path_def rel_elems_def rooted_def)
next
  case False
  have "\<forall>e \<in> set (path_elems p). slash \<notin> set e" using path_elems_plain [of p] by (auto simp: plain_elem_def)
  with False have split: "split_on slash (join_path (path_elems p)) = path_elems p" by (rule split_join)
  have ne: "plain_elem (hd (path_elems p))" using False path_elems_plain [of p] by auto
  from join_path_rooted [OF False this] split show ?thesis
    by (auto simp: clean_path_def Let_def rel_elems_def rooted_def)
qed

lemma drop_common_spec:
  "drop_common bs ts = (xs, ys) \<Longrightarrow> \<exists>zs. bs = zs @ xs \<and> ts = zs @ ys"
proof (induction bs ts rule: drop_common.induct)
  case (1 b bs t ts)
  then show ?case by (cases "b = t") (auto intro: exI [of _ "b # _"])
qed auto

lemma clean_elems_clean:
  assumes "\<forall>e \<in> set es. plain_elem e" "\<forall>e \<in> set es. e \<noteq> ''..''"
  shows "clean_elems r es st = rev st @ es"
  using assms by (induction es arbitrary: st) (auto simp: plain_elem_def)

text \<open>
  A path \<open>relToRoot\<close> accepts has the elements of the root followed by those of the result, with
  no dot or double dot among the latter: the file is below the root.
\<close>

lemma path_rel_below:
  assumes "path_rel base targ = Inr rel" "rel \<noteq> ''.''" "rel \<noteq> ''..''" "\<not> is_prefix ''../'' rel"
    and "clean_path base \<noteq> ''.''" "clean_path targ \<noteq> ''.''"
  shows "path_elems targ = path_elems base @ split_on slash rel"
proof -
  obtain bs ts where d: "drop_common (path_elems base) (path_elems targ) = (bs, ts)"
    and rel: "rel = join_path (replicate (length bs) ''..'' @ ts)" and ne: "clean_path targ \<noteq> clean_path base"
    and r: "rooted base = rooted targ"
    using assms by (auto simp: path_rel_def Let_def rel_elems_clean rooted_clean split: if_splits prod.splits)
  obtain zs where z: "path_elems base = zs @ bs" "path_elems targ = zs @ ts"
    using drop_common_spec [OF d] by blast
  have "bs = []"
  proof (rule ccontr)
    assume "bs \<noteq> []"
    then obtain b bs' where b: "bs = b # bs'" by (cases bs) auto
    show False
    proof (cases "replicate (length bs') ''..'' @ ts")
      case Nil
      with rel b assms(3) show False by simp
    next
      case (Cons x xs)
      with rel b assms(4) show False by (simp add: is_prefix_def)
    qed
  qed
  moreover have "ts \<noteq> []"
    using ne z \<open>bs = []\<close> r by (auto simp: clean_path_def)
  moreover have "\<forall>e \<in> set ts. slash \<notin> set e"
    using path_elems_plain [of targ] z by (auto simp: plain_elem_def)
  ultimately show ?thesis using z rel split_join [of ts] by simp
qed

end
