(* ===== verification/Template.thy ===== *)
theory Template
  imports Paths
begin

text \<open>
  Metadata templates (app/metadata/template.go, rules.go, extractor.go): compiling a pattern into
  tokens, the backtracking matcher with its mutable bindings, and the extraction of a file's
  metadata. Strings are byte strings, as the code indexes them.
\<close>

section \<open>Tokens and compilation\<close>

datatype token = TLiteral string | TField string | TWildcard

type_synonym bindings = "(string \<times> string) list"

definition name_start :: "char \<Rightarrow> bool" where
  "name_start c \<longleftrightarrow> (let n = of_char c :: nat in (65 \<le> n \<and> n \<le> 90) \<or> (97 \<le> n \<and> n \<le> 122) \<or> n = 95)"

definition name_char :: "char \<Rightarrow> bool" where
  "name_char c \<longleftrightarrow> name_start c \<or> (let n = of_char c :: nat in 48 \<le> n \<and> n \<le> 57)"

fun valid_key_name :: "string \<Rightarrow> bool" where
  "valid_key_name [] \<longleftrightarrow> False"
| "valid_key_name (c # s) \<longleftrightarrow> name_start c \<and> list_all name_char s"

text \<open>The local function \<open>flush\<close>.\<close>

definition flush :: "string \<Rightarrow> token list \<Rightarrow> token list" where
  "flush lit tokens = (if length lit > 0 then tokens @ [TLiteral lit] else tokens)"

lemma tl_dropWhile_length: "length (tl (dropWhile P s)) \<le> length s"
  by (metis diff_le_self le_trans length_dropWhile_le length_tl)

text \<open>The loop of \<open>compileSegment\<close>: what is left, the pending literal, the tokens, the fields.\<close>

function compile_loop ::
  "string \<Rightarrow> string \<Rightarrow> string \<Rightarrow> token list \<Rightarrow> string list \<Rightarrow> string + token list \<times> string list" where
  "compile_loop seg [] lit tokens flds =
     (let tokens1 = flush lit tokens
      in if tokens1 = [] then Inl (''segment '' @ go_quote seg @ '' has no template tokens'')
         else Inr (tokens1, flds))"
| "compile_loop seg (c # s) lit tokens flds =
     (if c = CHR ''{'' then
        (if CHR ''}'' \<notin> set s then Inl (''unclosed capture in segment '' @ go_quote seg)
         else
          (let name = takeWhile (\<lambda>c. c \<noteq> CHR ''}'') s; rest = tl (dropWhile (\<lambda>c. c \<noteq> CHR ''}'') s)
           in if name = '''' then Inl (''empty capture {} is not allowed in segment '' @ go_quote seg)
              else if \<not> valid_key_name name then
                Inl (''invalid capture {'' @ name @ ''} in segment '' @ go_quote seg @
                     '': must match [A-Za-z_][A-Za-z0-9_]*'')
              else if name \<in> set flds then
                Inl (''field {'' @ name @ ''} appears more than once in the same pattern'')
              else compile_loop seg rest '''' (flush lit tokens @ [TField name]) (flds @ [name])))
      else if c = CHR ''}'' then Inl (''unmatched } in segment '' @ go_quote seg)
      else if c = CHR ''*'' then compile_loop seg s '''' (flush lit tokens @ [TWildcard]) flds
      else compile_loop seg s (lit @ [c]) tokens flds)"
  by pat_completeness auto

termination
  by (relation "measure (\<lambda>(seg, s, lit, tokens, flds). length s)")
    (use tl_dropWhile_length in \<open>auto simp: less_Suc_eq_le simp del: length_tl\<close>)

definition compile_segment :: "string \<Rightarrow> string + token list \<times> string list" where
  "compile_segment seg = compile_loop seg seg '''' [] []"

fun compile_segments ::
  "nat \<Rightarrow> string list \<Rightarrow> string list \<Rightarrow> string + token list list \<times> string list" where
  "compile_segments i [] flds = Inr ([], flds)"
| "compile_segments i (seg # segs) flds =
     (if seg = '''' then
        Inl (''segment #'' @ nat_dec i @ '' is empty (leading/trailing or doubled '' @ go_quote ''/'' @
             '' separators are not allowed)'')
      else
       (case compile_segment seg of
          Inl e \<Rightarrow> Inl e
        | Inr (tokens, seg_fields) \<Rightarrow>
            (case filter (\<lambda>f. f \<in> set flds) seg_fields of
               f # _ \<Rightarrow> Inl (''field {'' @ f @ ''} appears more than once in the same pattern'')
             | [] \<Rightarrow> map_sum id (\<lambda>(ts, fl). (tokens # ts, fl)) (compile_segments (i + 1) segs (flds @ seg_fields)))))"

definition compile_pattern :: "string \<Rightarrow> string + token list list \<times> string list" where
  "compile_pattern pattern =
     (if pattern = '''' then Inl ''pattern is empty'' else compile_segments 0 (split_on CHR ''/'' pattern) [])"

record rule =
  rule_name :: string
  rule_from :: string
  rule_pattern :: string
  rule_required :: bool

record compiled_rule =
  cmp_name :: string
  cmp_from :: string
  cmp_required :: bool
  cmp_pattern :: string
  cmp_segments :: "token list list"

definition source_valid :: "string \<Rightarrow> bool" where
  "source_valid s \<longleftrightarrow> s = ''path'' \<or> s = ''filename''"

definition compile_rule :: "string list \<Rightarrow> rule \<Rightarrow> string + compiled_rule" where
  "compile_rule seen r =
     (if \<not> source_valid (rule_from r) then
        Inl (''rule '' @ go_quote (rule_name r) @ '': unsupported from '' @ go_quote (rule_from r))
      else if \<not> valid_key_name (rule_name r) then Inl (''invalid metadata key '' @ go_quote (rule_name r))
      else if rule_name r \<in> set seen then Inl (''duplicate metadata key '' @ go_quote (rule_name r))
      else
       (case compile_pattern (rule_pattern r) of
          Inl e \<Rightarrow> Inl (''rule '' @ go_quote (rule_name r) @ '' pattern '' @ go_quote (rule_pattern r) @ '': '' @ e)
        | Inr (segs, flds) \<Rightarrow>
            if rule_name r \<notin> set flds then
              Inl (''rule '' @ go_quote (rule_name r) @ '' pattern '' @ go_quote (rule_pattern r) @
                   '' does not capture its own key {'' @ rule_name r @ ''}'')
            else Inr \<lparr>cmp_name = rule_name r, cmp_from = rule_from r, cmp_required = rule_required r,
                      cmp_pattern = rule_pattern r, cmp_segments = segs\<rparr>))"

fun compile_rules :: "string list \<Rightarrow> rule list \<Rightarrow> string + compiled_rule list" where
  "compile_rules seen [] = Inr []"
| "compile_rules seen (r # rs) =
     (case compile_rule seen r of
        Inl e \<Rightarrow> Inl e
      | Inr c \<Rightarrow> map_sum id (\<lambda>cs. c # cs) (compile_rules (rule_name r # seen) rs))"

section \<open>Matching\<close>

text \<open>
  \<open>matchAt\<close> with the bindings threaded through; the two loops over the end of a wildcard and of
  a field run from the longest match down.
\<close>

function match_at :: "token list \<Rightarrow> string \<Rightarrow> bindings \<Rightarrow> bool \<times> bindings"
  and try_wildcard :: "token list \<Rightarrow> string \<Rightarrow> nat \<Rightarrow> bindings \<Rightarrow> bool \<times> bindings"
  and try_field :: "string \<Rightarrow> token list \<Rightarrow> string \<Rightarrow> nat \<Rightarrow> bindings \<Rightarrow> bool \<times> bindings" where
  "match_at [] s b = (s = [], b)"
| "match_at (TLiteral t # ts) s b = (if is_prefix t s then match_at ts (drop (length t) s) b else (False, b))"
| "match_at (TWildcard # ts) s b = try_wildcard ts s (length s) b"
| "match_at (TField f # ts) s b =
     (case try_field f ts s (length s) b of
        (True, b1) \<Rightarrow> (True, b1)
      | (False, b1) \<Rightarrow> (False, case map_of b f of Some prev \<Rightarrow> AList.update f prev b1 | None \<Rightarrow> AList.delete f b1))"
| "try_wildcard ts s n b =
     (case match_at ts (drop n s) b of
        (True, b1) \<Rightarrow> (True, b1)
      | (False, b1) \<Rightarrow> (if n = 0 then (False, b1) else try_wildcard ts s (n - 1) b1))"
| "try_field f ts s n b =
     (if n = 0 then (False, b)
      else (case match_at ts (drop n s) (AList.update f (take n s) b) of
              (True, b1) \<Rightarrow> (True, b1)
            | (False, b1) \<Rightarrow> try_field f ts s (n - 1) b1))"
  by pat_completeness auto

termination
  by (relation "measures [\<lambda>x. case x of Inl (ts, s, b) \<Rightarrow> length ts | Inr (Inl (ts, s, n, b)) \<Rightarrow> length ts
                              | Inr (Inr (f, ts, s, n, b)) \<Rightarrow> length ts,
                          \<lambda>x. case x of Inl (ts, s, b) \<Rightarrow> 0 | Inr (Inl (ts, s, n, b)) \<Rightarrow> Suc n
                              | Inr (Inr (f, ts, s, n, b)) \<Rightarrow> Suc n]") auto

declare try_wildcard.simps [simp del] try_field.simps [simp del]

definition match_segment :: "token list \<Rightarrow> string \<Rightarrow> bindings \<Rightarrow> bool \<times> bindings" where
  "match_segment tokens s b = match_at tokens s b"

fun match_segments :: "token list list \<Rightarrow> string list \<Rightarrow> bindings \<Rightarrow> bindings option" where
  "match_segments (ts # tss) (s # ss) b =
     (case match_segment ts s b of (True, b1) \<Rightarrow> match_segments tss ss b1 | (False, b1) \<Rightarrow> None)"
| "match_segments _ _ b = Some b"

definition match_rule :: "compiled_rule \<Rightarrow> string list \<Rightarrow> string option" where
  "match_rule r segments =
     (if length segments \<noteq> length (cmp_segments r) then None
      else (case match_segments (cmp_segments r) segments [] of
              None \<Rightarrow> None
            | Some b \<Rightarrow> (case map_of b (cmp_name r) of
                          None \<Rightarrow> None | Some v \<Rightarrow> if v = '''' then None else Some v)))"

section \<open>Extraction\<close>

record source_set =
  set_root :: string
  set_rules :: "compiled_rule list"

record source_rule_set =
  srs_source :: source_id
  srs_root :: string
  srs_rules :: "rule list"

text \<open>\<open>NewExtractor\<close>: the compiled rule sets by source, or the first error.\<close>

fun new_extractor :: "source_rule_set list \<Rightarrow> (source_id \<times> source_set) list \<Rightarrow> (source_id \<times> source_set) list res" where
  "new_extractor [] by_source = Inr by_source"
| "new_extractor (st # sts) by_source =
     (if srs_source st = '''' then
        Inl (Wrapped (err_text err_invalid_config @ '': metadata rule set requires a non-empty source id'') [err_invalid_config])
      else if map_of by_source (srs_source st) \<noteq> None then
        Inl (Wrapped (err_text err_invalid_config @ '': duplicate metadata rule set for source '' @ go_quote (srs_source st))
              [err_invalid_config])
      else
       (case compile_rules [] (srs_rules st) of
          Inl e \<Rightarrow> Inl (Wrapped (''metadata source '' @ go_quote (srs_source st) @ '': '' @ e) [])
        | Inr rs \<Rightarrow>
            new_extractor sts (AList.update (srs_source st) \<lparr>set_root = srs_root st, set_rules = rs\<rparr> by_source)))"

definition input_segments ::
  "source_set \<Rightarrow> compiled_rule \<Rightarrow> file_identity \<Rightarrow> string list res" where
  "input_segments s r file =
     (if cmp_from r = ''filename'' then Inr [f_name file]
      else if cmp_from r = ''path'' then
        (if set_root s = '''' then
           Inl (source_error err_metadata_extraction
                 (Wrapped (''path metadata rule '' @ go_quote (cmp_name r) @ '' requires a source root'') []))
         else (case rel_to_root (set_root s) (f_path file) of Inl e \<Rightarrow> Inl e | Inr p \<Rightarrow> Inr (split_on CHR ''/'' p)))
      else Inl (source_error err_metadata_extraction
                 (Wrapped (''rule '' @ go_quote (cmp_name r) @ '' has unsupported source '' @ go_quote (cmp_from r)) [])))"

fun extract_rules ::
  "source_set \<Rightarrow> file_identity \<Rightarrow> compiled_rule list \<Rightarrow> metadata \<Rightarrow> metadata res" where
  "extract_rules s file [] md = Inr md"
| "extract_rules s file (r # rs) md =
     (case input_segments s r file of
        Inl e \<Rightarrow> Inl e
      | Inr segs \<Rightarrow>
          (case match_rule r segs of
             None \<Rightarrow>
               if cmp_required r then
                 Inl (source_error err_metadata_extraction
                   (Wrapped (''required metadata rule '' @ go_quote (cmp_name r) @ '' (from='' @ cmp_from r @
                      '' pattern='' @ go_quote (cmp_pattern r) @ '') did not match file '' @ go_quote (f_path file)) []))
               else extract_rules s file rs md
           | Some v \<Rightarrow> extract_rules s file rs (AList.update (cmp_name r) v md)))"

definition extract_metadata ::
  "(source_id \<times> source_set) list \<Rightarrow> ctx \<Rightarrow> file_identity \<Rightarrow> metadata res" where
  "extract_metadata sets c file =
     (case c of Some e \<Rightarrow> Inl e
      | None \<Rightarrow> (case map_of sets (f_source file) of
                   None \<Rightarrow> Inr new_metadata
                 | Some s \<Rightarrow> extract_rules s file (set_rules s) new_metadata))"

section \<open>The matcher against its specification\<close>

text \<open>What a segment means: a run per token, literal runs as written, field runs not empty.\<close>

inductive fits :: "token list \<Rightarrow> string \<Rightarrow> string list \<Rightarrow> bool" where
  fits_Nil: "fits [] [] []"
| fits_Literal: "fits ts s ps \<Longrightarrow> fits (TLiteral t # ts) (t @ s) (t # ps)"
| fits_Wildcard: "fits ts s ps \<Longrightarrow> fits (TWildcard # ts) (p @ s) (p # ps)"
| fits_Field: "fits ts s ps \<Longrightarrow> p \<noteq> [] \<Longrightarrow> fits (TField f # ts) (p @ s) (p # ps)"

inductive_simps fits_simps: "fits [] s ps" "fits (TLiteral t # ts) s ps" "fits (TWildcard # ts) s ps"
  "fits (TField f # ts) s ps"

fun token_fields :: "token list \<Rightarrow> string list" where
  "token_fields [] = []"
| "token_fields (TField f # ts) = f # token_fields ts"
| "token_fields (t # ts) = token_fields ts"

text \<open>The fields with their runs.\<close>

fun field_runs :: "token list \<Rightarrow> string list \<Rightarrow> (string \<times> string) list" where
  "field_runs (TField f # ts) (p # ps) = (f, p) # field_runs ts ps"
| "field_runs (t # ts) (p # ps) = field_runs ts ps"
| "field_runs _ _ = []"

lemma field_runs_keys: "fits ts s ps \<Longrightarrow> map fst (field_runs ts ps) = token_fields ts"
  by (induction rule: fits.induct) auto

lemma fits_runs: "fits ts s ps \<Longrightarrow> concat ps = s \<and> length ps = length ts"
  by (induction rule: fits.induct) auto

lemma fits_literal_iff: "fits (TLiteral t # ts) s ps \<longleftrightarrow> is_prefix t s \<and> (\<exists>qs. ps = t # qs \<and> fits ts (drop (length t) s) qs)"
  by (auto simp: fits_simps is_prefix_iff)

lemma fits_wildcard_iff: "fits (TWildcard # ts) s ps \<longleftrightarrow> (\<exists>k \<le> length s. \<exists>qs. ps = take k s # qs \<and> fits ts (drop k s) qs)"
  unfolding fits_simps
  by (metis append_eq_conv_conj append_take_drop_id le_add1 length_append)

lemma fits_field_iff:
  "fits (TField f # ts) s ps \<longleftrightarrow> (\<exists>k \<in> {1..length s}. \<exists>qs. ps = take k s # qs \<and> fits ts (drop k s) qs)"
proof
  assume "fits (TField f # ts) s ps"
  then obtain p s1 qs where p: "s = p @ s1" "ps = p # qs" "fits ts s1 qs" "p \<noteq> []" by (auto simp: fits_simps)
  then have "length p \<in> {1..length s}" by (cases p) auto
  with p show "\<exists>k \<in> {1..length s}. \<exists>qs. ps = take k s # qs \<and> fits ts (drop k s) qs" by force
next
  assume "\<exists>k \<in> {1..length s}. \<exists>qs. ps = take k s # qs \<and> fits ts (drop k s) qs"
  then obtain k qs where "k \<in> {1..length s}" "ps = take k s # qs" "fits ts (drop k s) qs" by blast
  then show "fits (TField f # ts) s ps"
    unfolding fits_simps by (intro exI [of _ "drop k s"] exI [of _ qs] exI [of _ "take k s"]) auto
qed

text \<open>What a call that tried the runs in \<open>runs\<close> has done to the bindings.\<close>

definition outcome ::
  "(string list \<Rightarrow> bool) \<Rightarrow> (string list \<Rightarrow> string \<rightharpoonup> string) \<Rightarrow> (string \<Rightarrow> bool) \<Rightarrow> bindings \<Rightarrow> bool \<times> bindings \<Rightarrow> bool" where
  "outcome runs news kept b r \<longleftrightarrow>
     (if fst r then (\<exists>ps. runs ps \<and> map_of (snd r) = map_of b ++ news ps)
      else (\<forall>ps. \<not> runs ps) \<and> (\<forall>g. kept g \<longrightarrow> map_of (snd r) g = map_of b g))"

lemma match_outcome:
  "distinct (token_fields ts) \<Longrightarrow>
     outcome (fits ts s) (\<lambda>ps. map_of (field_runs ts ps)) (\<lambda>g. True) b (match_at ts s b)"
  "distinct (token_fields ts) \<Longrightarrow>
     outcome (\<lambda>ps. \<exists>k \<le> n. fits ts (drop k s) ps) (\<lambda>ps. map_of (field_runs ts ps)) (\<lambda>g. True) b (try_wildcard ts s n b)"
  "distinct (token_fields ts) \<Longrightarrow> f \<notin> set (token_fields ts) \<Longrightarrow>
     outcome (\<lambda>ps. \<exists>k \<in> {1..n}. \<exists>qs. ps = take k s # qs \<and> fits ts (drop k s) qs)
       (\<lambda>ps. map_of (field_runs (TField f # ts) ps)) (\<lambda>g. g \<noteq> f) b (try_field f ts s n b)"
proof (induction ts s b and ts s n b and f ts s n b rule: match_at_try_wildcard_try_field.induct)
  case (1 s b)
  then show ?case by (auto simp: outcome_def fits_simps)
next
  case (2 t ts s b)
  show ?case
  proof (cases "is_prefix t s")
    case True
    have "(\<exists>ps. fits (TLiteral t # ts) s ps \<and> P (field_runs (TLiteral t # ts) ps)) \<longleftrightarrow>
        (\<exists>qs. fits ts (drop (length t) s) qs \<and> P (field_runs ts qs))" for P
      using True by (auto simp: fits_literal_iff)
    from this [of "\<lambda>r. X = map_of b ++ map_of r" for X] this [of "\<lambda>r. True"] 2 True show ?thesis
      by (simp add: outcome_def split: if_splits)
  qed (simp add: outcome_def fits_literal_iff)
next
  case (3 ts s b)
  have "(\<exists>ps. fits (TWildcard # ts) s ps \<and> P (field_runs (TWildcard # ts) ps)) \<longleftrightarrow>
      (\<exists>qs. (\<exists>k \<le> length s. fits ts (drop k s) qs) \<and> P (field_runs ts qs))" (is "?L \<longleftrightarrow> ?R") for P
  proof
    show "?L \<Longrightarrow> ?R" by (auto simp: fits_wildcard_iff)
    assume ?R
    then obtain k qs where "k \<le> length s" "fits ts (drop k s) qs" "P (field_runs ts qs)" by blast
    then have "fits (TWildcard # ts) s (take k s # qs) \<and> P (field_runs (TWildcard # ts) (take k s # qs))"
      by (auto simp: fits_wildcard_iff)
    then show ?L by blast
  qed
  from this [of "\<lambda>r. X = map_of b ++ map_of r" for X] this [of "\<lambda>r. True"] 3 show ?case
    by (simp add: outcome_def split: if_splits)
next
  case (4 f ts s b)
  then have "outcome (\<lambda>ps. \<exists>k \<in> {1..length s}. \<exists>qs. ps = take k s # qs \<and> fits ts (drop k s) qs)
       (\<lambda>ps. map_of (field_runs (TField f # ts) ps)) (\<lambda>g. g \<noteq> f) b (try_field f ts s (length s) b)" by simp
  note o = this
  obtain ok b1 where m: "try_field f ts s (length s) b = (ok, b1)" by fastforce
  show ?case
  proof (cases ok)
    case True
    with o m show ?thesis by (simp add: outcome_def fits_field_iff)
  next
    case False
    with o m have "map_of b1 g = map_of b g" if "g \<noteq> f" for g using that by (simp add: outcome_def)
    with o m False show ?thesis
      by (auto simp: outcome_def fits_field_iff update_conv' delete_conv' split: option.split)
  qed
next
  case (5 ts s n b)
  note unfold = try_wildcard.simps [of ts s n b]
  obtain ok b1 where m: "match_at ts (drop n s) b = (ok, b1)" by fastforce
  have IH: "outcome (fits ts (drop n s)) (\<lambda>ps. map_of (field_runs ts ps)) (\<lambda>g. True) b (ok, b1)"
    using 5 m by simp
  show ?case
  proof (cases ok)
    case True
    then obtain ps where ps: "fits ts (drop n s) ps" "map_of b1 = map_of b ++ map_of (field_runs ts ps)"
      using IH by (auto simp: outcome_def)
    then have "(\<exists>k \<le> n. fits ts (drop k s) ps) \<and> map_of b1 = map_of b ++ map_of (field_runs ts ps)" by blast
    with True m show ?thesis unfolding outcome_def unfold by auto
  next
    case False
    then have no: "\<not> fits ts (drop n s) ps" and same: "map_of b1 = map_of b" for ps
      using IH by (auto simp: outcome_def)
    show ?thesis
    proof (cases "n = 0")
      case True
      then have "try_wildcard ts s n b = (False, b1)" using m False by (subst unfold) simp
      with True no same show ?thesis by (simp add: outcome_def)
    next
      case n: False
      have "outcome (\<lambda>ps. \<exists>k \<le> n - 1. fits ts (drop k s) ps) (\<lambda>ps. map_of (field_runs ts ps)) (\<lambda>g. True) b1
          (try_wildcard ts s (n - 1) b1)"
        using 5 m False n by simp
      moreover have "k \<le> n \<longleftrightarrow> k = n \<or> k \<le> n - 1" for k using n by linarith
      then have "(\<exists>k \<le> n. fits ts (drop k s) ps) \<longleftrightarrow> (\<exists>k \<le> n - 1. fits ts (drop k s) ps)" for ps
        using no by metis
      ultimately show ?thesis using m False n same by (simp add: outcome_def unfold split: if_splits)
    qed
  qed
next
  case (6 f ts s n b)
  note unfold = try_field.simps [of f ts s n b]
  show ?case
  proof (cases "n = 0")
    case True
    then have "try_field f ts s n b = (False, b)" by (subst unfold) simp
    with True show ?thesis by (simp add: outcome_def)
  next
    case False
    let ?b = "AList.update f (take n s) b"
    obtain ok b1 where m: "match_at ts (drop n s) ?b = (ok, b1)" by fastforce
    have IH: "outcome (fits ts (drop n s)) (\<lambda>ps. map_of (field_runs ts ps)) (\<lambda>g. True) ?b (ok, b1)"
      using 6 False m by simp
    show ?thesis
    proof (cases ok)
      case True
      then obtain qs where qs: "fits ts (drop n s) qs" "map_of b1 = map_of ?b ++ map_of (field_runs ts qs)"
        using IH by (auto simp: outcome_def)
      have "f \<notin> dom (map_of (field_runs ts qs))"
        using field_runs_keys [OF qs(1)] "6.prems"(2) by (metis dom_map_of_conv_image_fst set_map)
      then have "map_of b1 = map_of b ++ map_of (field_runs (TField f # ts) (take n s # qs))"
        by (auto simp: qs(2) update_conv' map_add_def fun_eq_iff split: option.split)
      moreover have "\<exists>k \<in> {1..n}. \<exists>qs'. take n s # qs = take k s # qs' \<and> fits ts (drop k s) qs'"
        using False qs(1) by (intro bexI [of _ n] exI [of _ qs]) simp_all
      moreover have "try_field f ts s n b = (True, b1)" using True False m by (subst unfold) simp
      ultimately show ?thesis
        unfolding outcome_def by (simp del: field_runs.simps) blast
    next
      case no: False
      have "outcome (\<lambda>ps. \<exists>k \<in> {1..n - 1}. \<exists>qs. ps = take k s # qs \<and> fits ts (drop k s) qs)
          (\<lambda>ps. map_of (field_runs (TField f # ts) ps)) (\<lambda>g. g \<noteq> f) b1 (try_field f ts s (n - 1) b1)"
        using 6 False m no by simp
      moreover have "(\<exists>k \<in> {1..n}. \<exists>qs. ps = take k s # qs \<and> fits ts (drop k s) qs) \<longleftrightarrow>
          (\<exists>k \<in> {1..n - 1}. \<exists>qs. ps = take k s # qs \<and> fits ts (drop k s) qs)" for ps
      proof -
        have "{1..n} = insert n {1..n - 1}" using False by auto
        moreover have "\<not> fits ts (drop n s) qs" for qs using IH no by (auto simp: outcome_def)
        ultimately show ?thesis by auto
      qed
      moreover have "map_of b1 g = map_of b g" if "g \<noteq> f" for g
        using IH no that by (auto simp: outcome_def update_conv')
      moreover have "map_of b1 ++ map_of (field_runs (TField f # ts) ps) = map_of b ++ map_of (field_runs (TField f # ts) ps)"
        if "\<exists>k \<in> {1..n - 1}. \<exists>qs. ps = take k s # qs \<and> fits ts (drop k s) qs" for ps
        using that \<open>\<And>g. g \<noteq> f \<Longrightarrow> map_of b1 g = map_of b g\<close> by (auto simp: map_add_def fun_eq_iff split: option.split if_splits)
      moreover have "try_field f ts s n b = try_field f ts s (n - 1) b1" using False m no by (subst unfold) simp
      ultimately show ?thesis
        unfolding outcome_def by (simp del: field_runs.simps split: if_splits) (metis (no_types, lifting))
    qed
  qed
qed

end
