(* ===== verification/TemplateProps.thy ===== *)
theory TemplateProps
  imports Template
begin

text \<open>
  The properties of metadata templates: compilation is the inverse of printing, matching agrees
  with its declarative meaning, and what a rule extracts is a nonempty run of the segment.
\<close>

section \<open>Compilation inverts printing\<close>

fun show_token :: "token \<Rightarrow> string" where
  "show_token (TLiteral t) = t"
| "show_token (TField f) = CHR ''{'' # f @ ''}''"
| "show_token TWildcard = ''*''"

definition show_tokens :: "token list \<Rightarrow> string" where
  "show_tokens ts = concat (map show_token ts)"

definition special :: "char \<Rightarrow> bool" where
  "special c \<longleftrightarrow> c = CHR ''{'' \<or> c = CHR ''}'' \<or> c = CHR ''*''"

fun token_ok :: "token \<Rightarrow> bool" where
  "token_ok (TLiteral t) \<longleftrightarrow> t \<noteq> '''' \<and> list_all (\<lambda>c. \<not> special c) t"
| "token_ok (TField f) \<longleftrightarrow> valid_key_name f"
| "token_ok TWildcard \<longleftrightarrow> True"

fun is_literal :: "token \<Rightarrow> bool" where
  "is_literal (TLiteral t) \<longleftrightarrow> True"
| "is_literal _ \<longleftrightarrow> False"

fun no_adjacent :: "token list \<Rightarrow> bool" where
  "no_adjacent (s # t # ts) \<longleftrightarrow> \<not> (is_literal s \<and> is_literal t) \<and> no_adjacent (t # ts)"
| "no_adjacent _ \<longleftrightarrow> True"

definition well_formed :: "token list \<Rightarrow> bool" where
  "well_formed ts \<longleftrightarrow> list_all token_ok ts \<and> no_adjacent ts"

lemma show_tokens_simps [simp]:
  "show_tokens [] = ''''" "show_tokens (t # ts) = show_token t @ show_tokens ts"
  "show_tokens (ts @ us) = show_tokens ts @ show_tokens us"
  by (simp_all add: show_tokens_def)

lemma well_formed_Cons:
  "well_formed (t # ts) \<longleftrightarrow> token_ok t \<and> well_formed ts \<and> (ts = [] \<or> \<not> is_literal t \<or> \<not> is_literal (hd ts))"
  by (cases ts) (auto simp: well_formed_def)

lemma well_formed_Nil [simp]: "well_formed []"
  by (simp add: well_formed_def)

text \<open>Where the pending literal ends.\<close>

definition ends_literal :: "string \<Rightarrow> bool" where
  "ends_literal x \<longleftrightarrow> x = '''' \<or> special (hd x)"

lemma show_ends_literal:
  "well_formed ts \<Longrightarrow> ts = [] \<or> \<not> is_literal (hd ts) \<Longrightarrow> ends_literal (show_tokens ts)"
  by (cases ts; cases "hd ts") (auto simp: ends_literal_def special_def)

lemma plain_prefix:
  assumes "list_all (\<lambda>c. \<not> special c) t" "ends_literal y"
  shows "takeWhile (\<lambda>c. \<not> special c) (t @ y) = t"
  using assms by (cases y) (auto simp: ends_literal_def list_all_iff takeWhile_append)

lemma flush_split:
  assumes "list_all (\<lambda>c. \<not> special c) lit" "ends_literal x"
  shows "well_formed ts \<and> show_tokens ts = lit @ x \<longleftrightarrow>
    (\<exists>us. ts = flush lit [] @ us \<and> well_formed us \<and> show_tokens us = x)"
proof
  assume ts: "well_formed ts \<and> show_tokens ts = lit @ x"
  show "\<exists>us. ts = flush lit [] @ us \<and> well_formed us \<and> show_tokens us = x"
  proof (cases "ts \<noteq> [] \<and> is_literal (hd ts)")
    case True
    then obtain t us where t: "ts = TLiteral t # us" by (cases ts; cases "hd ts") auto
    with ts have w: "list_all (\<lambda>c. \<not> special c) t" "t \<noteq> ''''" "ends_literal (show_tokens us)" "well_formed us"
      using show_ends_literal [of us] by (auto simp: well_formed_Cons)
    have "t = lit"
      using plain_prefix [OF w(1,3)] plain_prefix [OF assms] ts t by simp
    with t ts w show ?thesis by (auto simp: flush_def)
  next
    case False
    then have "ends_literal (lit @ x)" using ts show_ends_literal [of ts] by auto
    with assms(1) have "lit = ''''" by (cases lit) (auto simp: ends_literal_def)
    with ts show ?thesis by (auto simp: flush_def)
  qed
next
  assume "\<exists>us. ts = flush lit [] @ us \<and> well_formed us \<and> show_tokens us = x"
  then obtain us where us: "ts = flush lit [] @ us" "well_formed us" "show_tokens us = x" by blast
  have "us = [] \<or> \<not> is_literal (hd us)"
  proof (rule ccontr)
    assume "\<not> (us = [] \<or> \<not> is_literal (hd us))"
    then obtain t vs where "us = TLiteral t # vs" by (cases us; cases "hd us") auto
    with us assms(2) show False by (cases t) (auto simp: well_formed_Cons ends_literal_def)
  qed
  with us assms(1) show "well_formed ts \<and> show_tokens ts = lit @ x"
    by (auto simp: flush_def well_formed_Cons)
qed

lemma flush_append: "flush lit tokens = tokens @ flush lit []"
  by (simp add: flush_def)

lemma flush_fields [simp]: "token_fields (flush lit [] @ ts) = token_fields ts"
  by (simp add: flush_def)

lemma key_name_no_brace: "valid_key_name f \<Longrightarrow> CHR ''}'' \<notin> set f \<and> f \<noteq> ''''"
  by (cases f) (auto simp: name_char_def name_start_def list_all_iff)

lemma field_split:
  assumes "valid_key_name f"
  shows "s = f @ CHR ''}'' # x \<longleftrightarrow> CHR ''}'' \<in> set s \<and> takeWhile (\<lambda>c. c \<noteq> CHR ''}'') s = f \<and>
    tl (dropWhile (\<lambda>c. c \<noteq> CHR ''}'') s) = x"
proof
  assume "s = f @ CHR ''}'' # x"
  with key_name_no_brace [OF assms] show "CHR ''}'' \<in> set s \<and> takeWhile (\<lambda>c. c \<noteq> CHR ''}'') s = f \<and>
    tl (dropWhile (\<lambda>c. c \<noteq> CHR ''}'') s) = x"
    by (auto simp: takeWhile_append dropWhile_append)
next
  assume a: "CHR ''}'' \<in> set s \<and> takeWhile (\<lambda>c. c \<noteq> CHR ''}'') s = f \<and> tl (dropWhile (\<lambda>c. c \<noteq> CHR ''}'') s) = x"
  then have "dropWhile (\<lambda>c. c \<noteq> CHR ''}'') s \<noteq> []" by (auto simp: dropWhile_eq_Nil_conv)
  with hd_dropWhile [OF this] a have "dropWhile (\<lambda>c. c \<noteq> CHR ''}'') s = CHR ''}'' # x"
    by (metis (mono_tags, lifting) list.collapse)
  with a takeWhile_dropWhile_id [of "\<lambda>c. c \<noteq> CHR ''}''" s] show "s = f @ CHR ''}'' # x" by simp
qed

text \<open>What the first special character leaves.\<close>

lemma show_special:
  assumes "well_formed us"
  shows "show_tokens us = CHR ''{'' # s \<longleftrightarrow> (\<exists>f vs. us = TField f # vs \<and> s = f @ CHR ''}'' # show_tokens vs)"
    "show_tokens us = CHR ''}'' # s \<longleftrightarrow> False"
    "show_tokens us = CHR ''*'' # s \<longleftrightarrow> (\<exists>vs. us = TWildcard # vs \<and> s = show_tokens vs)"
proof -
  consider "us = []" | t vs where "us = TLiteral t # vs" | f vs where "us = TField f # vs" | vs where "us = TWildcard # vs"
    by (metis list.exhaust token.exhaust)
  then have "(show_tokens us = CHR ''{'' # s \<longleftrightarrow> (\<exists>f vs. us = TField f # vs \<and> s = f @ CHR ''}'' # show_tokens vs)) \<and>
    (show_tokens us \<noteq> CHR ''}'' # s) \<and> (show_tokens us = CHR ''*'' # s \<longleftrightarrow> (\<exists>vs. us = TWildcard # vs \<and> s = show_tokens vs))"
  proof cases
    case (2 t vs)
    with assms obtain x y where "t = x # y" "\<not> special x" by (cases t) (auto simp: well_formed_Cons)
    with 2 show ?thesis by (auto simp: special_def)
  qed auto
  then show "show_tokens us = CHR ''{'' # s \<longleftrightarrow> (\<exists>f vs. us = TField f # vs \<and> s = f @ CHR ''}'' # show_tokens vs)"
    "show_tokens us = CHR ''}'' # s \<longleftrightarrow> False"
    "show_tokens us = CHR ''*'' # s \<longleftrightarrow> (\<exists>vs. us = TWildcard # vs \<and> s = show_tokens vs)" by simp_all
qed

lemma show_empty: "well_formed us \<Longrightarrow> show_tokens us = '''' \<longleftrightarrow> us = []"
  by (cases us; cases "hd us") (auto simp: well_formed_Cons)

lemma compile_loop_iff:
  assumes "list_all (\<lambda>c. \<not> special c) lit" "distinct flds"
  shows "compile_loop seg s lit tokens flds = Inr (ts, fl) \<longleftrightarrow>
    (\<exists>us. ts = tokens @ us \<and> ts \<noteq> [] \<and> well_formed us \<and> show_tokens us = lit @ s \<and>
       fl = flds @ token_fields us \<and> distinct fl)"
  using assms
proof (induction seg s lit tokens flds rule: compile_loop.induct)
  case (1 seg lit tokens flds)
  have "well_formed us \<and> show_tokens us = lit \<longleftrightarrow> us = flush lit []" for us
    using flush_split [OF 1(1), of "''''" us] by (auto simp: ends_literal_def show_empty)
  then have "(\<exists>us. ts = tokens @ us \<and> ts \<noteq> [] \<and> well_formed us \<and> show_tokens us = lit @ '''' \<and>
      fl = flds @ token_fields us \<and> distinct fl) \<longleftrightarrow>
    (\<exists>us. us = flush lit [] \<and> ts = tokens @ us \<and> ts \<noteq> [] \<and> fl = flds @ token_fields us \<and> distinct fl)"
    by (metis append_Nil2)
  moreover have "token_fields (flush lit []) = []" using flush_fields [of lit "[]"] by simp
  ultimately show ?case using 1(2) flush_append [of lit tokens] by (auto simp: Let_def)
next
  case (2 seg c s lit tokens flds)
  show ?case
  proof (cases "special c")
    case False
    then have c: "c \<noteq> CHR ''{''" "c \<noteq> CHR ''}''" "c \<noteq> CHR ''*''" by (auto simp: special_def)
    with 2 False show ?thesis by simp
  next
    case True
    then have e: "ends_literal (c # s)" by (simp add: ends_literal_def)
    have split: "(well_formed us \<and> show_tokens us = lit @ c # s) \<longleftrightarrow>
        (\<exists>vs. us = flush lit [] @ vs \<and> well_formed vs \<and> show_tokens vs = c # s)" for us
      by (rule flush_split [OF "2.prems"(1) e])
    have rhs: "(\<exists>us. ts = tokens @ us \<and> ts \<noteq> [] \<and> well_formed us \<and> show_tokens us = lit @ c # s \<and>
          fl = flds @ token_fields us \<and> distinct fl) \<longleftrightarrow>
        (\<exists>vs. ts = flush lit tokens @ vs \<and> well_formed vs \<and> show_tokens vs = c # s \<and>
          fl = flds @ token_fields vs \<and> distinct fl)"
    proof
      assume "\<exists>us. ts = tokens @ us \<and> ts \<noteq> [] \<and> well_formed us \<and> show_tokens us = lit @ c # s \<and>
          fl = flds @ token_fields us \<and> distinct fl"
      then obtain us where us: "ts = tokens @ us" "well_formed us \<and> show_tokens us = lit @ c # s"
        "fl = flds @ token_fields us" "distinct fl" by blast
      from us(2) obtain vs where "us = flush lit [] @ vs" "well_formed vs" "show_tokens vs = c # s" unfolding split by blast
      with us(1,3,4) show "\<exists>vs. ts = flush lit tokens @ vs \<and> well_formed vs \<and> show_tokens vs = c # s \<and>
          fl = flds @ token_fields vs \<and> distinct fl" by (auto simp: flush_append [of lit tokens])
    next
      assume "\<exists>vs. ts = flush lit tokens @ vs \<and> well_formed vs \<and> show_tokens vs = c # s \<and>
          fl = flds @ token_fields vs \<and> distinct fl"
      then obtain vs where vs: "ts = tokens @ flush lit [] @ vs" "well_formed vs" "show_tokens vs = c # s"
        "fl = flds @ token_fields vs" "distinct fl" by (auto simp: flush_append [of lit tokens])
      with split have "well_formed (flush lit [] @ vs)" "show_tokens (flush lit [] @ vs) = lit @ c # s" by blast+
      with vs show "\<exists>us. ts = tokens @ us \<and> ts \<noteq> [] \<and> well_formed us \<and> show_tokens us = lit @ c # s \<and>
          fl = flds @ token_fields us \<and> distinct fl"
        by (intro exI [of _ "flush lit [] @ vs"]) auto
    qed
    consider "c = CHR ''{''" | "c = CHR ''}''" | "c = CHR ''*''" using True by (auto simp: special_def)
    then show ?thesis
    proof cases
      case 1
      let ?name = "takeWhile (\<lambda>c. c \<noteq> CHR ''}'') s" and ?rest = "tl (dropWhile (\<lambda>c. c \<noteq> CHR ''}'') s)"
      have fs: "valid_key_name f \<and> s = f @ CHR ''}'' # x \<longleftrightarrow>
          valid_key_name ?name \<and> CHR ''}'' \<in> set s \<and> f = ?name \<and> x = ?rest" for f x
        using field_split [of f s x] by auto
      have "(\<exists>vs. ts = flush lit tokens @ vs \<and> well_formed vs \<and> show_tokens vs = c # s \<and>
          fl = flds @ token_fields vs \<and> distinct fl) \<longleftrightarrow>
        (\<exists>f ws. ts = flush lit tokens @ TField f # ws \<and> (valid_key_name f \<and> s = f @ CHR ''}'' # show_tokens ws) \<and>
          well_formed ws \<and> fl = flds @ f # token_fields ws \<and> distinct fl)"
        unfolding 1 by (auto simp: show_special(1) well_formed_Cons)
      also have "\<dots> \<longleftrightarrow> CHR ''}'' \<in> set s \<and> valid_key_name ?name \<and>
          (\<exists>ws. ts = (flush lit tokens @ [TField ?name]) @ ws \<and> well_formed ws \<and> show_tokens ws = ?rest \<and>
            fl = (flds @ [?name]) @ token_fields ws \<and> distinct fl)"
        unfolding fs by auto
      also have "\<dots> \<longleftrightarrow> compile_loop seg (c # s) lit tokens flds = Inr (ts, fl)"
        using "2.IH"(1) [OF 1] "2.prems"(2) key_name_no_brace [of ?name] unfolding 1 by (auto simp: Let_def)
      finally show ?thesis unfolding rhs ..
    next
      case 2
      then show ?thesis unfolding rhs by (auto simp: show_special(2))
    next
      case 3
      then show ?thesis unfolding rhs using "2.IH"(2) "2.prems"(2)
        by (auto simp: show_special(3) well_formed_Cons)
    qed
  qed
qed

text \<open>C34. Templates compile back: a segment compiles exactly when it is the text of some tokens in
normal form, which are literals without template characters, valid and pairwise distinct field
names and wildcards, at least one token and no two literals side by side; the result is those
tokens with their fields in order. So every accepted segment prints back to itself, and every
sequence of tokens in normal form is reached.\<close>

theorem segment_compiles_to_its_tokens:
  "compile_segment seg = Inr (ts, fl) \<longleftrightarrow>
     show_tokens ts = seg \<and> ts \<noteq> [] \<and> well_formed ts \<and> fl = token_fields ts \<and> distinct fl"
  using compile_loop_iff [of "''''" "[]" seg seg "[]" ts fl] by (auto simp: compile_segment_def)

text \<open>C33. The backtracking matcher decides the template's meaning: matching a segment against tokens
with distinct fields answers true exactly when the segment can be cut into runs that fit the
tokens, literal runs as written and field runs not empty; then the bindings are the old ones
overwritten by the runs of one such cut, and when it answers false the bindings are unchanged, in
spite of the assignments made on the way.\<close>

theorem matcher_decides_template:
  assumes "distinct (token_fields ts)" "match_segment ts s b = (ok, b1)"
  shows "ok = (\<exists>ps. fits ts s ps) \<and>
    (if ok then (\<exists>ps. fits ts s ps \<and> concat ps = s \<and> map_of b1 = map_of b ++ map_of (field_runs ts ps))
     else map_of b1 = map_of b)"
  using match_outcome(1) [OF assms(1), of s b] assms(2) fits_runs
  by (auto simp: match_segment_def outcome_def) blast

theorem matcher_decides_template_witness:
  "fst (match_segment [TField ''p'', TLiteral ''-'', TWildcard, TLiteral ''.csv''] ''a-b-c.csv'' []) \<and>
   (\<exists>ps. fits [TField ''p'', TLiteral ''-'', TWildcard, TLiteral ''.csv''] ''a-b-c.csv'' ps)"
proof -
  let ?ts = "[TField ''p'', TLiteral ''-'', TWildcard, TLiteral ''.csv'']"
  have "fst (match_segment ?ts ''a-b-c.csv'' [])" by code_simp
  then obtain b1 where m: "match_segment ?ts ''a-b-c.csv'' [] = (True, b1)" by (metis prod.collapse)
  have "distinct (token_fields ?ts)" by simp
  from matcher_decides_template [OF this m] m show ?thesis by simp
qed

end
