(* ===== verification/HostGate.thy ===== *)
theory HostGate
  imports Dates GoText
begin

text \<open>
  The host gate (internal/hostgate/hostgate.go): a UNC host is probed before its share is
  touched, and the answer is kept for ten minutes. \<open>Reachable\<close> takes the lock twice, for the
  lookup and for the record, and neither reads the clock for the check nor dials under it, so a
  call is four steps that other calls may come between.
\<close>

section \<open>The gate\<close>

text \<open>\<open>HostOf\<close>: the host of a UNC path in small letters, empty for any other path.\<close>

definition host_of :: "string \<Rightarrow> string" where
  "host_of path =
     (let p = map (\<lambda>c. if c = CHR ''/'' then backslash else c) path in
      if \<not> is_prefix [backslash, backslash] p then ''''
      else to_lower (trim_space (takeWhile (\<lambda>c. c \<noteq> backslash) (drop 2 p))))"

text \<open>The host the executor asks the gate about (executor.go): of the source's root, else of its raw root.\<close>

definition gate_host :: "string \<Rightarrow> string \<Rightarrow> string" where
  "gate_host root raw_root = (let h = host_of root in if h = '''' then host_of raw_root else h)"

definition minutes_10 :: duration where
  "minutes_10 = 600 * 1000000000"

definition dead_ttl :: duration where "dead_ttl = minutes_10"
definition alive_ttl :: duration where "alive_ttl = minutes_10"

record health =
  h_ok :: bool
  h_expires :: time

text \<open>
  What a call of \<open>Reachable\<close> holds: its argument, the entry it looked up, the host it found no
  fresh answer for, what the dial said, its own answer.
\<close>

datatype call =
    Entered string
  | Looked string "health option"
  | Dialling string
  | Dialled string bool
  | Answered string bool

datatype gate_event =
    Lookup nat string
  | Recorded nat string bool time
  | FromCache nat string bool time

record gate =
  g_cache :: "(string \<times> health) list"
  g_port :: string
  g_dials :: nat
  g_calls :: "call list"
  g_trace :: "gate_event list"

definition join_host_port :: "string \<Rightarrow> string \<Rightarrow> string" where
  "join_host_port host port =
     (if CHR '':'' \<in> set host then ''['' @ host @ '']:'' @ port else host @ '':'' @ port)"

text \<open>\<open>probe\<close>: whether the host takes a connection, as the network answers the dial.\<close>

definition probe :: "(string \<Rightarrow> bool) \<Rightarrow> gate \<Rightarrow> string \<Rightarrow> bool" where
  "probe dial g host = dial (join_host_port host (g_port g))"

definition remember :: "time \<Rightarrow> string \<Rightarrow> bool \<Rightarrow> gate \<Rightarrow> gate" where
  "remember now host ok g =
     g\<lparr>g_dials := g_dials g + 1,
       g_cache := AList.update host \<lparr>h_ok = ok, h_expires = now + (if ok then alive_ttl else dead_ttl)\<rparr> (g_cache g)\<rparr>"

definition call_is :: "nat \<Rightarrow> call \<Rightarrow> gate \<Rightarrow> gate" where
  "call_is i c g = g\<lparr>g_calls := (g_calls g)[i := c]\<rparr>"

definition traced :: "gate_event list \<Rightarrow> gate \<Rightarrow> gate" where
  "traced es g = g\<lparr>g_trace := g_trace g @ es\<rparr>"

text \<open>One step of call \<open>i\<close>, with the clock at \<open>now\<close> and the network answering \<open>dial\<close>.\<close>

definition gate_step :: "nat \<Rightarrow> time \<Rightarrow> (string \<Rightarrow> bool) \<Rightarrow> gate \<Rightarrow> gate" where
  "gate_step i now dial g =
     (if length (g_calls g) \<le> i then g
      else case g_calls g ! i of
        Entered h \<Rightarrow>
          if h = '''' then call_is i (Answered h True) g
          else traced [Lookup i h] (call_is i (Looked h (map_of (g_cache g) h)) g)
      | Looked h c \<Rightarrow>
          (case c of
             Some x \<Rightarrow>
               if now < h_expires x then traced [FromCache i h (h_ok x) now] (call_is i (Answered h (h_ok x)) g)
               else call_is i (Dialling h) g
           | None \<Rightarrow> call_is i (Dialling h) g)
      | Dialling h \<Rightarrow> call_is i (Dialled h (probe dial g h)) g
      | Dialled h ok \<Rightarrow> traced [Recorded i h ok now] (remember now h ok (call_is i (Answered h ok) g))
      | Answered h ok \<Rightarrow> g)"

definition set_probe_port :: "string \<Rightarrow> gate \<Rightarrow> gate" where
  "set_probe_port p g = g\<lparr>g_port := p\<rparr>"

definition dial_count :: "gate \<Rightarrow> nat" where
  "dial_count g = g_dials g"

definition reset_gate :: "gate \<Rightarrow> gate" where
  "reset_gate g = g\<lparr>g_cache := [], g_dials := 0\<rparr>"

definition new_gate :: "string list \<Rightarrow> gate" where
  "new_gate hosts =
     \<lparr>g_cache = [], g_port = ''445'', g_dials = 0, g_calls = map Entered hosts, g_trace = []\<rparr>"

section \<open>Runs\<close>

text \<open>A run: the calls step in any order while the clock goes forward.\<close>

inductive gate_run :: "string list \<Rightarrow> gate \<Rightarrow> time \<Rightarrow> bool" for hosts where
  gate_start: "gate_run hosts (new_gate hosts) now"
| gate_next: "gate_run hosts g t \<Longrightarrow> t \<le> now \<Longrightarrow> gate_run hosts (gate_step i now dial g) now"

text \<open>The last probe of a host that a trace records.\<close>

fun last_probe :: "string \<Rightarrow> gate_event list \<Rightarrow> (bool \<times> time) option" where
  "last_probe h [] = None"
| "last_probe h (e # es) =
     (case last_probe h es of
        Some p \<Rightarrow> Some p
      | None \<Rightarrow> (case e of Recorded j h1 ok t \<Rightarrow> if h1 = h then Some (ok, t) else None | _ \<Rightarrow> None))"

definition entry_of :: "bool \<times> time \<Rightarrow> health" where
  "entry_of p = \<lparr>h_ok = fst p, h_expires = snd p + minutes_10\<rparr>"

text \<open>The lookup of call \<open>j\<close> for \<open>h\<close> is in the trace, and \<open>P\<close> holds of the probe it saw.\<close>

definition looked :: "gate_event list \<Rightarrow> nat \<Rightarrow> string \<Rightarrow> ((bool \<times> time) option \<Rightarrow> bool) \<Rightarrow> bool" where
  "looked tr j h P \<longleftrightarrow> (\<exists>before after. tr = before @ Lookup j h # after \<and> P (last_probe h before))"

definition stale :: "time \<Rightarrow> (bool \<times> time) option \<Rightarrow> bool" where
  "stale now p \<longleftrightarrow> (\<forall>ok t. p = Some (ok, t) \<longrightarrow> t + minutes_10 \<le> now)"

definition call_ok :: "gate_event list \<Rightarrow> time \<Rightarrow> nat \<Rightarrow> call \<Rightarrow> bool" where
  "call_ok tr now j c \<longleftrightarrow>
     (case c of
        Entered h \<Rightarrow> True
      | Looked h x \<Rightarrow> h \<noteq> '''' \<and> looked tr j h (\<lambda>p. x = map_option entry_of p)
      | Dialling h \<Rightarrow> h \<noteq> '''' \<and> looked tr j h (stale now)
      | Dialled h b \<Rightarrow> h \<noteq> '''' \<and> looked tr j h (stale now)
      | Answered h b \<Rightarrow> if h = '''' then b else \<exists>t. FromCache j h b t \<in> set tr \<or> Recorded j h b t \<in> set tr)"

fun probe_times :: "gate_event list \<Rightarrow> time list" where
  "probe_times [] = []"
| "probe_times (Recorded j h ok t # es) = t # probe_times es"
| "probe_times (e # es) = probe_times es"

text \<open>
  The abstract gate: a log of probes. An answer may be taken from a probe less than ten minutes
  old; a new probe may be recorded when every probe of the host in the last ten minutes was
  recorded after the call had looked for one.
\<close>

definition oracle_allows :: "gate_event list \<Rightarrow> gate_event \<Rightarrow> bool" where
  "oracle_allows tr e \<longleftrightarrow>
     (case e of
        Lookup i h \<Rightarrow> True
      | FromCache i h ok now \<Rightarrow> \<exists>j t. Recorded j h ok t \<in> set tr \<and> now < t + minutes_10
      | Recorded j h ok now \<Rightarrow>
          \<forall>before i ok' t after. tr = before @ Recorded i h ok' t # after \<longrightarrow>
            t + minutes_10 \<le> now \<or> Lookup j h \<in> set before)"

definition oracle_trace :: "gate_event list \<Rightarrow> bool" where
  "oracle_trace tr \<longleftrightarrow> (\<forall>k < length tr. oracle_allows (take k tr) (tr ! k))"

section \<open>The gate refines the oracle\<close>

lemma last_probe_append:
  "last_probe h (es @ fs) = (case last_probe h fs of Some p \<Rightarrow> Some p | None \<Rightarrow> last_probe h es)"
  by (induction es) (auto split: option.splits)

lemma last_probe_in: "last_probe h es = Some (ok, t) \<Longrightarrow> \<exists>j. Recorded j h ok t \<in> set es"
  by (induction es) (auto split: option.splits gate_event.splits if_splits)

lemma probe_times_append [simp]: "probe_times (es @ fs) = probe_times es @ probe_times fs"
  by (induction es rule: probe_times.induct) auto

lemma probe_times_mem: "Recorded j h ok t \<in> set es \<Longrightarrow> t \<in> set (probe_times es)"
  by (induction es rule: probe_times.induct) auto

lemma last_probe_newest:
  "Recorded j h ok t \<in> set es \<Longrightarrow> sorted (probe_times es) \<Longrightarrow> \<exists>ok' t'. last_probe h es = Some (ok', t') \<and> t \<le> t'"
proof (induction es)
  case (Cons e es)
  show ?case
  proof (cases "Recorded j h ok t \<in> set es")
    case True
    moreover have "sorted (probe_times es)" using Cons.prems(2) by (cases e) auto
    ultimately show ?thesis using Cons.IH by auto
  next
    case False
    then have e: "e = Recorded j h ok t" using Cons.prems(1) by simp
    show ?thesis
    proof (cases "last_probe h es")
      case (Some p)
      obtain ok' t' where p: "p = (ok', t')" by fastforce
      have "t' \<in> set (probe_times es)" using last_probe_in Some p probe_times_mem by blast
      then show ?thesis using Cons.prems(2) by (auto simp: e Some p)
    qed (simp add: e)
  qed
qed simp

lemma looked_more: "looked tr j h P \<Longrightarrow> looked (tr @ es) j h P"
  unfolding looked_def by fastforce

lemma looked_weaker: "looked tr j h P \<Longrightarrow> (\<And>p. P p \<Longrightarrow> Q p) \<Longrightarrow> looked tr j h Q"
  unfolding looked_def by blast

lemma stale_later: "stale now p \<Longrightarrow> now \<le> now' \<Longrightarrow> stale now' p"
  unfolding stale_def by fastforce

lemma call_ok_more:
  assumes "call_ok tr now j c" "now \<le> now'"
  shows "call_ok (tr @ es) now' j c"
  using assms
  by (cases c) (auto simp: call_ok_def intro: looked_more looked_weaker stale_later split: if_splits)

lemma oracle_snoc: "oracle_trace (tr @ [e]) \<longleftrightarrow> oracle_trace tr \<and> oracle_allows tr e"
  by (auto simp: oracle_trace_def nth_append less_Suc_eq)

definition gate_inv :: "gate \<Rightarrow> time \<Rightarrow> bool" where
  "gate_inv g now \<longleftrightarrow>
     (\<forall>h. map_of (g_cache g) h = map_option entry_of (last_probe h (g_trace g))) \<and>
     (\<forall>j < length (g_calls g). call_ok (g_trace g) now j (g_calls g ! j)) \<and>
     sorted (probe_times (g_trace g)) \<and> (\<forall>t \<in> set (probe_times (g_trace g)). t \<le> now) \<and>
     oracle_trace (g_trace g) \<and> g_dials g = length (probe_times (g_trace g))"

lemma gate_inv_later: "gate_inv g t \<Longrightarrow> t \<le> now \<Longrightarrow> gate_inv g now"
  using call_ok_more [where es = "[]"] by (fastforce simp: gate_inv_def)

lemma calls_updated:
  assumes "\<forall>j < length cs. call_ok tr now j (cs ! j)" "call_ok (tr @ es) now i c"
  shows "\<forall>j < length cs. call_ok (tr @ es) now j (cs[i := c] ! j)"
  using assms call_ok_more [of tr now] by (cases "i < length cs") (auto simp: nth_list_update)

lemma gate_inv_move:
  assumes "gate_inv g now" "call_ok (g_trace g) now i c"
  shows "gate_inv (call_is i c g) now"
  using assms calls_updated [of "g_calls g" "g_trace g" now "[]" i c] by (simp add: gate_inv_def call_is_def)

text \<open>A move together with an event that records no probe.\<close>

lemma gate_inv_event:
  assumes "gate_inv g now" "call_ok (g_trace g @ [e]) now i c" "oracle_allows (g_trace g) e"
    and "probe_times [e] = []"
  shows "gate_inv (traced [e] (call_is i c g)) now"
proof -
  have "last_probe h [e] = None" for h using assms(4) by (cases e) auto
  then show ?thesis
    using assms calls_updated [of "g_calls g" "g_trace g" now "[e]" i c]
    by (simp add: gate_inv_def call_is_def traced_def oracle_snoc last_probe_append)
qed

lemma gate_inv_record:
  assumes inv: "gate_inv g now" and i: "looked (g_trace g) i h (stale now)" and h: "h \<noteq> ''''"
  shows "gate_inv (traced [Recorded i h ok now] (remember now h ok (call_is i (Answered h ok) g))) now"
proof -
  let ?e = "Recorded i h ok now"
  obtain pre post where tr: "g_trace g = pre @ Lookup i h # post" and st: "stale now (last_probe h pre)"
    using i by (auto simp: looked_def)
  have "t + minutes_10 \<le> now \<or> Lookup i h \<in> set b" if g: "g_trace g = b @ Recorded j h ok' t # a" for b j ok' t a
  proof -
    have "(\<exists>z. pre = b @ Recorded j h ok' t # z) \<or> (\<exists>z. b = pre @ Lookup i h # z)"
      using tr g by (auto simp: append_eq_append_conv2 append_eq_Cons_conv Cons_eq_append_conv)
    then show ?thesis
    proof
      assume "\<exists>z. pre = b @ Recorded j h ok' t # z"
      then have "Recorded j h ok' t \<in> set pre" by auto
      moreover have "sorted (probe_times pre)" using inv tr by (simp add: gate_inv_def sorted_append)
      ultimately obtain ok2 t2 where "last_probe h pre = Some (ok2, t2)" "t \<le> t2"
        using last_probe_newest by blast
      with st show ?thesis by (auto simp: stale_def)
    qed auto
  qed
  then have allowed: "oracle_allows (g_trace g) ?e" by (simp add: oracle_allows_def) blast
  have "call_ok (g_trace g @ [?e]) now i (Answered h ok)" using h by (auto simp: call_ok_def)
  then show ?thesis
    using inv calls_updated [of "g_calls g" "g_trace g" now "[?e]" i] allowed
    by (simp add: gate_inv_def call_is_def traced_def remember_def oracle_snoc last_probe_append
        update_conv' entry_of_def alive_ttl_def dead_ttl_def sorted_append)
qed

lemma gate_step_inv:
  assumes inv: "gate_inv g now"
  shows "gate_inv (gate_step i now dial g) now"
proof (cases "i < length (g_calls g)")
  case True
  then have ok: "call_ok (g_trace g) now i (g_calls g ! i)" using inv by (simp add: gate_inv_def)
  have cache: "map_of (g_cache g) h = map_option entry_of (last_probe h (g_trace g))" for h
    using inv by (simp add: gate_inv_def)
  show ?thesis
  proof (cases "g_calls g ! i")
    case (Entered h)
    have "call_ok (g_trace g @ [Lookup i h]) now i (Looked h (map_of (g_cache g) h))" if "h \<noteq> ''''"
      using that cache by (auto simp: call_ok_def looked_def)
    with True Entered show ?thesis
      using gate_inv_event [OF inv, of "Lookup i h" i] gate_inv_move [OF inv, of i "Answered h True"]
      by (auto simp: gate_step_def oracle_allows_def call_ok_def)
  next
    case (Looked h x)
    then have l: "looked (g_trace g) i h (\<lambda>p. x = map_option entry_of p)" "h \<noteq> ''''"
      using ok by (auto simp: call_ok_def)
    show ?thesis
    proof (cases "\<exists>e. x = Some e \<and> now < h_expires e")
      case fresh: True
      then obtain e where e: "x = Some e" "now < h_expires e" by blast
      then obtain ok t before after where p: "last_probe h before = Some (ok, t)" "e = entry_of (ok, t)"
        "g_trace g = before @ Lookup i h # after"
      proof -
        from l(1) obtain before after where b: "g_trace g = before @ Lookup i h # after"
          "x = map_option entry_of (last_probe h before)" by (auto simp: looked_def)
        with e obtain p where "last_probe h before = Some p" "e = entry_of p" by auto
        with b that show thesis by (metis prod.collapse)
      qed
      have "oracle_allows (g_trace g) (FromCache i h (h_ok e) now)"
        using last_probe_in [OF p(1)] e p(2,3) by (auto simp: oracle_allows_def entry_of_def)
      then have "gate_inv (traced [FromCache i h (h_ok e) now] (call_is i (Answered h (h_ok e)) g)) now"
        using l(2) by (intro gate_inv_event [OF inv]) (auto simp: call_ok_def)
      with True Looked e show ?thesis by (simp add: gate_step_def)
    next
      case False
      have "looked (g_trace g) i h (stale now)"
        using l(1) False by (auto elim!: looked_weaker simp: stale_def entry_of_def)
      then have "gate_inv (call_is i (Dialling h) g) now"
        using l(2) by (intro gate_inv_move [OF inv]) (simp add: call_ok_def)
      with True Looked False show ?thesis by (auto simp: gate_step_def split: option.split)
    qed
  next
    case (Dialling h)
    then have "call_ok (g_trace g) now i (Dialled h (probe dial g h))" using ok by (simp add: call_ok_def)
    with True Dialling gate_inv_move [OF inv] show ?thesis by (simp add: gate_step_def)
  next
    case (Dialled h b)
    with ok gate_inv_record [OF inv, of i h b] True show ?thesis by (simp add: gate_step_def call_ok_def)
  qed (use True inv in \<open>simp add: gate_step_def\<close>)
qed (use inv in \<open>simp add: gate_step_def\<close>)

lemma new_gate_inv: "gate_inv (new_gate hosts) now"
  by (simp add: gate_inv_def new_gate_def call_ok_def oracle_trace_def)

lemma step_calls [simp]: "length (g_calls (gate_step i now dial g)) = length (g_calls g)"
  by (simp add: gate_step_def call_is_def traced_def remember_def split: call.split option.split)

lemma gate_run_inv: "gate_run hosts g now \<Longrightarrow> gate_inv g now \<and> length (g_calls g) = length hosts"
proof (induction rule: gate_run.induct)
  case (gate_start now)
  show ?case using new_gate_inv [of hosts now] by (simp add: new_gate_def)
next
  case (gate_next g t now i dial)
  then show ?case using gate_step_inv [OF gate_inv_later, of g t now i dial] by simp
qed

text \<open>A schedule: which call steps at which time; the network answers \<open>dial\<close> throughout.\<close>

definition run_gate :: "(string \<Rightarrow> bool) \<Rightarrow> (nat \<times> time) list \<Rightarrow> gate \<Rightarrow> gate" where
  "run_gate dial sch g = fold (\<lambda>(i, now). gate_step i now dial) sch g"

lemma run_gate_run:
  "gate_run hosts g now \<Longrightarrow> sorted (now # map snd sch) \<Longrightarrow>
     gate_run hosts (run_gate dial sch g) (last (now # map snd sch))"
proof (induction sch arbitrary: g now)
  case (Cons a sch)
  obtain i t where a: "a = (i, t)" by fastforce
  have "gate_run hosts (gate_step i t dial g) t" using Cons.prems a by (intro gate_next) auto
  from Cons.IH [OF this] Cons.prems(2) show ?case by (simp add: a run_gate_def)
qed (simp add: run_gate_def)

text \<open>C36. The host gate refines a log of probes, under every interleaving of its calls: each answer for a
host is that of the call's own probe or of a recorded one less than ten minutes old, and when two
probes of a host are recorded less than ten minutes apart, the second call had looked the host up
before the first was recorded. Overlapping calls do probe twice.\<close>

theorem gate_refines_oracle:
  assumes "gate_run hosts g now"
  shows "oracle_trace (g_trace g) \<and> dial_count g = length (probe_times (g_trace g)) \<and>
    (\<forall>j < length hosts. \<forall>h b. g_calls g ! j = Answered h b \<longrightarrow>
       (if h = '''' then b else \<exists>t. FromCache j h b t \<in> set (g_trace g) \<or> Recorded j h b t \<in> set (g_trace g)))"
proof -
  have inv: "gate_inv g now" "length (g_calls g) = length hosts" using gate_run_inv [OF assms] by auto
  have "if h = '''' then b else \<exists>t. FromCache j h b t \<in> set (g_trace g) \<or> Recorded j h b t \<in> set (g_trace g)"
    if "j < length hosts" "g_calls g ! j = Answered h b" for j h b
  proof -
    have "call_ok (g_trace g) now j (Answered h b)" using inv that unfolding gate_inv_def by metis
    then show ?thesis by (simp add: call_ok_def)
  qed
  moreover have "oracle_trace (g_trace g)" "dial_count g = length (probe_times (g_trace g))"
    using inv(1) by (simp_all add: gate_inv_def dial_count_def)
  ultimately show ?thesis by blast
qed

text \<open>Two calls that overlap, and a third a minute later.\<close>

definition crowd :: gate where
  "crowd = run_gate (\<lambda>a. True)
     [(0, 0), (1, 0), (0, 1), (1, 1), (0, 2), (1, 2), (0, 3), (1, 4), (2, 60000000000), (2, 60000000001)]
     (new_gate [''plc'', ''plc'', ''plc''])"

theorem gate_refines_oracle_witness:
  "g_trace crowd = [Lookup 0 ''plc'', Lookup 1 ''plc'', Recorded 0 ''plc'' True 3, Recorded 1 ''plc'' True 4,
     Lookup 2 ''plc'', FromCache 2 ''plc'' True 60000000001] \<and>
   dial_count crowd = 2 \<and> oracle_trace (g_trace crowd)"
proof -
  have t: "g_trace crowd = [Lookup 0 ''plc'', Lookup 1 ''plc'', Recorded 0 ''plc'' True 3, Recorded 1 ''plc'' True 4,
     Lookup 2 ''plc'', FromCache 2 ''plc'' True 60000000001]" by code_simp
  have "gate_run [''plc'', ''plc'', ''plc''] crowd 60000000001"
    unfolding crowd_def by (rule run_gate_run [OF gate_start [of _ 0], THEN back_subst [of "gate_run _ _"]]) simp_all
  from gate_refines_oracle [OF this] t show ?thesis by simp
qed

end
