(* ===== verification/Encoding.thy ===== *)
theory Encoding
  imports GoText
begin

text \<open>
  Character encodings (app/encoding/encoding.go) and how the CSV parser chooses a decoder for a
  stream (app/parser/parser.go). The decoders themselves are golang.org/x/text's: a decoder is
  its name, and what one makes of a sample is an argument.
\<close>

definition normalize_encoding :: "string \<Rightarrow> string res" where
  "normalize_encoding name =
     (let n = to_lower (trim_space name) in
      if n \<in> {'''', ''utf-8'', ''utf8''} then Inr ''utf8''
      else if n \<in> {''gbk'', ''cp936'', ''gb2312''} then Inr ''gbk''
      else if n = ''gb18030'' then Inr ''gb18030''
      else if n \<in> {''big5'', ''big-5'', ''cp950''} then Inr ''big5''
      else if n \<in> {''latin1'', ''iso-8859-1'', ''iso8859-1''} then Inr ''latin1''
      else if n \<in> {''windows1252'', ''windows-1252'', ''cp1252''} then Inr ''windows1252''
      else if n \<in> {''utf16le'', ''utf-16le''} then Inr ''utf16le''
      else if n \<in> {''utf16be'', ''utf-16be''} then Inr ''utf16be''
      else if n = ''auto'' then Inr ''auto''
      else Inl (Wrapped (''unsupported encoding '' @ go_quote name @
        '' (supported: utf8, gbk, gb18030, big5, latin1, windows1252, utf16le, utf16be, auto)'') []))"

text \<open>\<open>Decoder\<close>: no decoder for UTF-8.\<close>

definition decoder :: "string \<Rightarrow> string option res" where
  "decoder name =
     (if name = '''' \<or> name = ''utf8'' then Inr None
      else if name \<in> {''gbk'', ''gb18030'', ''big5'', ''latin1'', ''windows1252'', ''utf16le'', ''utf16be''} then Inr (Some name)
      else if name = ''auto'' then Inl (Wrapped ''encoding auto must be resolved before a decoder is built'' [])
      else Inl (Wrapped (''unsupported encoding '' @ go_quote name) []))"

datatype bom = BOMNone | BOMUTF8 | BOMUTF16LE | BOMUTF16BE

definition detect_bom :: "string \<Rightarrow> bom" where
  "detect_bom prefix =
     (if length prefix \<ge> 3 \<and> map byte (take 3 prefix) = [0xEF, 0xBB, 0xBF :: nat] then BOMUTF8
      else if length prefix \<ge> 2 \<and> map byte (take 2 prefix) = [0xFF, 0xFE :: nat] then BOMUTF16LE
      else if length prefix \<ge> 2 \<and> map byte (take 2 prefix) = [0xFE, 0xFF :: nat] then BOMUTF16BE
      else BOMNone)"

definition bom_utf16 :: "bom \<Rightarrow> string" where
  "bom_utf16 b = (case b of BOMUTF16LE \<Rightarrow> ''utf16le'' | BOMUTF16BE \<Rightarrow> ''utf16be'' | _ \<Rightarrow> '''')"

lemma decode_rune_size: "s \<noteq> [] \<Longrightarrow> 0 < snd (decode_rune s)"
  by (simp add: decode_rune_def split: nat.split)

lemma decode_rune_shrinks: "s \<noteq> [] \<Longrightarrow> (r, n) = decode_rune s \<Longrightarrow> length s - n < length s"
  using decode_rune_size [of s] by (cases s) (auto dest: arg_cong [of _ _ snd])

function resolve_auto :: "string \<Rightarrow> string" where
  "resolve_auto prefix =
     (if prefix = [] then ''utf8''
      else
       (let (r, n) = decode_rune prefix in
        if r = rune_error \<and> n \<le> 1 then (if length prefix < 4 then ''utf8'' else ''gb18030'')
        else resolve_auto (drop n prefix)))"
  by pat_completeness auto
termination
  by (relation "measure length") (auto intro: decode_rune_shrinks)

declare resolve_auto.simps [simp del]

text \<open>\<open>DecodeSample\<close>; \<open>dec\<close> is \<open>transform.Bytes\<close> with the named decoder.\<close>

definition decode_all :: "(string \<Rightarrow> string \<Rightarrow> string res) \<Rightarrow> string \<Rightarrow> string \<Rightarrow> string" where
  "decode_all dec data name =
     (case decoder name of
        Inr (Some n) \<Rightarrow> (case dec n data of Inr out \<Rightarrow> out | Inl e \<Rightarrow> data)
      | _ \<Rightarrow> data)"

definition sample_encoding :: "string \<Rightarrow> string \<Rightarrow> string" where
  "sample_encoding normalized sample = (if normalized = ''auto'' then resolve_auto sample else normalized)"

definition decode_sample :: "(string \<Rightarrow> string \<Rightarrow> string res) \<Rightarrow> string \<Rightarrow> string \<Rightarrow> string" where
  "decode_sample dec sample normalized =
     (case detect_bom sample of
        BOMUTF8 \<Rightarrow> drop 3 sample
      | BOMNone \<Rightarrow>
          (let name = sample_encoding normalized sample
           in if name = ''utf8'' \<or> name = '''' then sample else decode_all dec sample name)
      | b \<Rightarrow>
          (let name = bom_utf16 b
           in if normalized = ''auto'' \<or> normalized = name then decode_all dec (drop 2 sample) name else sample))"

section \<open>The parser's decoder\<close>

definition must_peek :: "string \<Rightarrow> string" where
  "must_peek data = take 4 data"

text \<open>\<open>decodeStream\<close>: the decoder to read through, if any, and the bytes still to read.\<close>

definition decode_stream :: "string \<Rightarrow> string \<Rightarrow> (string option \<times> string) res" where
  "decode_stream name data =
     (let bom = detect_bom (must_peek data) in
      case bom of
        BOMUTF8 \<Rightarrow> Inr (None, drop 3 data)
      | BOMNone \<Rightarrow>
          (let name1 = (if name = ''auto'' then resolve_auto (must_peek data) else name)
           in case decoder name1 of
                Inl e \<Rightarrow> Inl (source_error err_invalid_config (Wrapped (err_text e) []))
              | Inr dec \<Rightarrow> Inr (dec, data))
      | _ \<Rightarrow>
          (case decoder (bom_utf16 bom) of
             Inl e \<Rightarrow> Inl (source_error err_invalid_encoding (Wrapped (err_text e) []))
           | Inr dec \<Rightarrow> Inr (dec, drop 2 data)))"

text \<open>The beginning of \<open>Parse\<close>.\<close>

definition parser_input :: "string \<Rightarrow> string \<Rightarrow> (string option \<times> string) res" where
  "parser_input encoding data =
     (case normalize_encoding encoding of
        Inl e \<Rightarrow> Inl (source_error err_invalid_config (Wrapped (err_text e) []))
      | Inr name \<Rightarrow> decode_stream name data)"

section \<open>What auto finds\<close>

lemma decode_error_iff:
  assumes "s \<noteq> []"
  shows "fst (decode_rune s) = rune_error \<and> snd (decode_rune s) \<le> 1 \<longleftrightarrow> rune_len s = 0"
  using assms mod_less_divisor [of 128 "byte (hd s)"]
  by (auto simp: decode_rune_def rune_error_def split: nat.splits)

lemma decode_size: "rune_len s \<noteq> 0 \<Longrightarrow> snd (decode_rune s) = rune_len s"
  by (cases s) (auto simp: decode_rune_def split: nat.split)

lemma resolve_step:
  "resolve_auto s = (if s = [] then ''utf8''
     else if rune_len s = 0 then (if length s < 4 then ''utf8'' else ''gb18030'')
     else resolve_auto (drop (rune_len s) s))"
proof (cases "s = []")
  case False
  obtain r n where d: "decode_rune s = (r, n)" by fastforce
  show ?thesis
    using False decode_error_iff [OF False] decode_size [of s]
    by (subst resolve_auto.simps) (auto simp: d)
qed (simp add: resolve_auto.simps)

text \<open>A text that is valid up to a byte that starts no rune, with that byte not among the last three.\<close>

definition broken :: "string \<Rightarrow> bool" where
  "broken s \<longleftrightarrow> (\<exists>pre rest. s = pre @ rest \<and> valid_string pre \<and> rune_len rest = 0 \<and> 4 \<le> length rest)"

lemma broken_step:
  assumes "rune_len s \<noteq> 0"
  shows "broken s \<longleftrightarrow> broken (drop (rune_len s) s)"
proof
  assume "broken (drop (rune_len s) s)"
  then obtain pre rest where p: "drop (rune_len s) s = pre @ rest" "valid_string pre" "rune_len rest = 0" "4 \<le> length rest"
    by (auto simp: broken_def)
  then have "s = (take (rune_len s) s @ pre) @ rest" by (metis append.assoc append_take_drop_id)
  with p valid_string_cons [OF assms, of pre] show "broken s" unfolding broken_def by blast
next
  assume "broken s"
  then obtain pre rest where p: "s = pre @ rest" "valid_string pre" "rune_len rest = 0" "4 \<le> length rest"
    by (auto simp: broken_def)
  have "pre \<noteq> []" using p assms by auto
  then have n: "rune_len pre \<noteq> 0" using p(2) by (subst (asm) valid_string.simps) (simp split: if_splits)
  then have l: "rune_len s = rune_len pre" using rune_len_append p(1) by simp
  moreover have "valid_string (drop (rune_len pre) pre)"
    using p(2) n \<open>pre \<noteq> []\<close> by (subst (asm) valid_string.simps) simp
  moreover have "drop (rune_len s) s = drop (rune_len pre) pre @ rest"
    using rune_len_le [of pre] unfolding l by (simp add: p(1))
  ultimately show "broken (drop (rune_len s) s)" using p(3,4) unfolding broken_def by blast
qed

lemma resolve_auto_iff: "resolve_auto s = (if broken s then ''gb18030'' else ''utf8'')"
proof (induction s rule: length_induct)
  case (1 s)
  show ?case
  proof (cases "s = [] \<or> rune_len s = 0")
    case True
    have "broken s \<longleftrightarrow> rune_len s = 0 \<and> 4 \<le> length s"
    proof
      assume "broken s"
      then obtain pre rest where p: "s = pre @ rest" "valid_string pre" "rune_len rest = 0" "4 \<le> length rest"
        by (auto simp: broken_def)
      have "rune_len pre = 0" using True rune_len_append [of pre rest] p(1) by (cases "rune_len pre = 0") auto
      then have "pre = []" using p(2) by (subst (asm) valid_string.simps) (simp split: if_splits)
      with p show "rune_len s = 0 \<and> 4 \<le> length s" by simp
    next
      assume "rune_len s = 0 \<and> 4 \<le> length s"
      then show "broken s" unfolding broken_def by (intro exI [of _ "[]"] exI [of _ s]) simp
    qed
    with True show ?thesis by (subst resolve_step) auto
  next
    case False
    then have "length (drop (rune_len s) s) < length s" by auto
    with 1 have "resolve_auto (drop (rune_len s) s) = (if broken (drop (rune_len s) s) then ''gb18030'' else ''utf8'')" by blast
    with False broken_step [of s] show ?thesis by (subst resolve_step) simp
  qed
qed

lemma broken_peek: "broken (must_peek s) \<longleftrightarrow> 4 \<le> length s \<and> rune_len s = 0"
proof -
  have "broken (take 4 s) \<longleftrightarrow> 4 \<le> length s \<and> rune_len s = 0"
  proof
    assume "broken (take 4 s)"
    then obtain pre rest where p: "take 4 s = pre @ rest" "rune_len rest = 0" "4 \<le> length rest" by (auto simp: broken_def)
    have "length (pre @ rest) \<le> 4" using p(1) by (metis length_take min.cobounded2)
    with p(3) have "pre = []" by (cases pre) simp_all
    then have "length s \<ge> 4" using p(1,3) by (metis append_Nil length_take min.bounded_iff)
    with p \<open>pre = []\<close> show "4 \<le> length s \<and> rune_len s = 0" using rune_len_take4 [of s] by simp
  next
    assume "4 \<le> length s \<and> rune_len s = 0"
    then show "broken (take 4 s)"
      unfolding broken_def using rune_len_take4 [of s] by (intro exI [of _ "[]"] exI [of _ "take 4 s"]) simp
  qed
  then show ?thesis by (simp add: must_peek_def)
qed

lemma detect_peek: "detect_bom (must_peek s) = detect_bom s"
  by (simp add: detect_bom_def must_peek_def min_def)

text \<open>C35. Automatic detection: for a stream without a byte-order mark, discovery's sample is taken for
GB18030 exactly when it has a byte that starts no rune after valid text and before the last three
bytes, but the parser decides by the first character alone, whatever follows. A GB18030 file that
begins with an ASCII character is therefore accepted by discovery and then read as UTF-8.\<close>

theorem auto_looks_at_one_character:
  assumes "detect_bom data = BOMNone"
  shows "parser_input ''auto'' data = Inr (if 4 \<le> length data \<and> rune_len data = 0 then Some ''gb18030'' else None, data) \<and>
    sample_encoding ''auto'' data = (if broken data then ''gb18030'' else ''utf8'') \<and>
    (\<forall>dec. decode_sample dec data ''auto'' = (if broken data then decode_all dec data ''gb18030'' else data))"
proof -
  have n: "normalize_encoding ''auto'' = Inr ''auto''"
    by code_simp
  show ?thesis
    using assms by (simp add: parser_input_def n decode_stream_def detect_peek broken_peek decoder_def
        sample_encoding_def resolve_auto_iff decode_sample_def)
qed

text \<open>A header line followed by a Chinese word in GB18030.\<close>

definition gbk_file :: string where
  "gbk_file = ''a,b'' @ map char_of [10, 0xC4, 0xE3, 0xBA, 0xC3 :: nat]"

theorem auto_looks_at_one_character_witness:
  "parser_input ''auto'' gbk_file = Inr (None, gbk_file) \<and> \<not> valid_string gbk_file \<and>
   (\<forall>dec. decode_sample dec gbk_file ''auto'' = decode_all dec gbk_file ''gb18030'')"
proof -
  have b: "broken gbk_file" unfolding broken_def
    by (intro exI [of _ "take 4 gbk_file"] exI [of _ "drop 4 gbk_file"]) code_simp
  have "detect_bom gbk_file = BOMNone" "rune_len gbk_file = 1" "\<not> valid_string gbk_file" by code_simp+
  with auto_looks_at_one_character [of gbk_file] b show ?thesis by simp
qed

end
