(* ===== verification/Source.thy ===== *)
theory Source
  imports Paths HostGate Encoding
begin

text \<open>
  File sources (app/source/source.go and sniff.go) on a Unix host: the three ways of discovery,
  the test of a file's first bytes, and the checked opening of a file. What the file system, the
  clock, the context and the host gate answer during one discovery is a \<open>view\<close>; the walk of a
  directory is the list of its visits in the order \<open>filepath.WalkDir\<close> makes them.
\<close>

section \<open>The source and what it sees\<close>

record file_info =
  fi_size :: "64 word"
  fi_mtime :: time
  fi_dir :: bool

record visit =
  v_path :: string
  v_err :: "err option"
  v_name :: string
  v_dir :: bool
  v_symlink :: bool
  v_info :: "file_info res"
  v_stat :: "file_info res"
  v_sample :: "string option"

record view =
  vw_platform :: platform
  vw_net :: "errno list"
  vw_reach :: "string \<Rightarrow> bool"
  vw_ctx :: "nat \<Rightarrow> ctx"
  vw_now :: time
  vw_walk :: "string \<Rightarrow> visit list"
  vw_stat :: "nat \<Rightarrow> string \<Rightarrow> file_info res"
  vw_sha :: "string \<Rightarrow> string res"
  vw_dec :: "string \<Rightarrow> string \<Rightarrow> string res"

record source =
  s_id :: source_id
  s_root :: string
  s_raw_root :: string
  s_pattern :: string
  s_content_detect :: bool
  s_encoding :: string
  s_flat :: bool
  s_hash :: bool
  s_window :: duration
  s_dir_layout :: string
  s_name_layout :: string
  s_last_hash :: "(string \<times> string) list"
  s_normalized :: bool

definition new_source :: "string \<Rightarrow> string \<Rightarrow> string \<Rightarrow> duration \<Rightarrow> source" where
  "new_source i root pattern window =
     \<lparr>s_id = i, s_root = root, s_raw_root = '''', s_pattern = pattern, s_content_detect = False, s_encoding = '''',
      s_flat = False, s_hash = False, s_window = window, s_dir_layout = '''', s_name_layout = '''',
      s_last_hash = [], s_normalized = False\<rparr>"

text \<open>\<open>nativeSep\<close> on a Unix host, and \<open>normalize\<close>, which acts once.\<close>

definition native_sep :: "string \<Rightarrow> string" where
  "native_sep p =
     (if p = '''' then p else if backslash \<notin> set p then p else map (\<lambda>c. if c = backslash then slash else c) p)"

definition normalize_source :: "source \<Rightarrow> source" where
  "normalize_source s =
     (if s_normalized s then s
      else
       (let s1 = s\<lparr>s_raw_root := s_root s, s_root := native_sep (s_root s), s_pattern := native_sep (s_pattern s),
                   s_dir_layout := native_sep (s_dir_layout s), s_name_layout := native_sep (s_name_layout s),
                   s_normalized := True\<rparr>
        in if \<not> s_content_detect s \<and> \<not> s_flat s \<and> s_pattern s1 = '''' then s1\<lparr>s_pattern := ''*.csv''\<rparr> else s1))"

definition source_name :: "source \<Rightarrow> source_id" where
  "source_name s = (if s_id s = '''' then s_root s else s_id s)"

definition source_root :: "source \<Rightarrow> string \<times> source" where
  "source_root s = (let s1 = normalize_source s in (s_root s1, s1))"

definition source_raw_root :: "source \<Rightarrow> string \<times> source" where
  "source_raw_root s = (let s1 = normalize_source s in (s_raw_root s1, s1))"

definition validate_root :: "string \<Rightarrow> err option" where
  "validate_root root =
     (if root = '''' then Some (Wrapped (err_text err_invalid_config @ '': source root is empty'') [err_invalid_config]) else None)"

definition check_host_gate :: "(string \<Rightarrow> bool) \<Rightarrow> string \<Rightarrow> err option" where
  "check_host_gate reach raw_root =
     (let h = host_of raw_root in
      if h \<noteq> '''' \<and> \<not> reach h then
        Some (source_error err_unavailable (Wrapped (''unc host '' @ go_quote h @ '' unreachable (probed tcp/445)'') []))
      else None)"

section \<open>Dates in names\<close>

text \<open>\<open>%02d\<close> of a number that is not negative.\<close>

definition two_digits :: "int \<Rightarrow> string" where
  "two_digits n = pad 2 (nat_dec (nat n))"

function render_dated :: "string \<Rightarrow> civil \<Rightarrow> string" where
  "render_dated pattern c =
     (case c of (y, m, d) \<Rightarrow>
       if pattern = '''' then ''''
       else if is_prefix ''YYYY'' pattern then int_dec y @ render_dated (drop 4 pattern) c
       else if is_prefix ''YY'' pattern then two_digits (y mod 100) @ render_dated (drop 2 pattern) c
       else if is_prefix ''MM'' pattern then two_digits m @ render_dated (drop 2 pattern) c
       else if is_prefix ''DD'' pattern then two_digits d @ render_dated (drop 2 pattern) c
       else hd pattern # render_dated (tl pattern) c)"
  by pat_completeness auto
termination
  by (relation "measure (\<lambda>(p, c). length p)") auto

declare render_dated.simps [simp del]

definition date_dir :: "source \<Rightarrow> collection_date \<Rightarrow> string" where
  "date_dir s date =
     (if s_dir_layout s \<noteq> '''' then path_join [s_root s, render_dated (s_dir_layout s) (civil_date date)]
      else path_join [s_root s, date_string date])"

section \<open>Names and contents\<close>

definition is_system_junk :: "string \<Rightarrow> bool" where
  "is_system_junk name \<longleftrightarrow>
     is_prefix ''~$'' name \<or>
     to_lower name \<in> {''thumbs.db'', ''desktop.ini'', ''.ds_store'', ''ehthumbs.db'', ''desktop.ini.bak''}"

text \<open>\<open>filepath.Match\<close>: the pattern as tokens, none when it is malformed, and their match.\<close>

datatype glob_token = GStar | GAny | GClass bool "(nat \<times> nat) list" | GLit char

definition rune_size :: "string \<Rightarrow> nat" where
  "rune_size s = max 1 (snd (decode_rune s))"

text \<open>One bound of a range: a rune, escaped or not, that something follows.\<close>

definition get_esc :: "string \<Rightarrow> (nat \<times> string) option" where
  "get_esc chunk =
     (if chunk = '''' \<or> hd chunk \<in> {CHR ''-'', CHR '']''} then None
      else
       (let c = (if hd chunk = backslash then tl chunk else chunk) in
        if c = '''' then None
        else (let (r, n) = decode_rune c; rest = drop n c in
              if (r = rune_error \<and> n = 1) \<or> rest = '''' then None else Some (r, rest))))"

lemma get_esc_shrinks: "get_esc c = Some (r, rest) \<Longrightarrow> length rest < length c"
  using decode_rune_size [of c] decode_rune_size [of "tl c"]
  by (cases c) (auto simp: get_esc_def Let_def split: if_splits prod.splits)

function glob_ranges :: "string \<Rightarrow> (nat \<times> nat) list \<Rightarrow> ((nat \<times> nat) list \<times> string) option" where
  "glob_ranges chunk rs =
     (if chunk \<noteq> '''' \<and> hd chunk = CHR '']'' \<and> rs \<noteq> [] then Some (rs, tl chunk)
      else (case get_esc chunk of
              None \<Rightarrow> None
            | Some (lo, rest) \<Rightarrow>
                if hd rest = CHR ''-'' then
                  (case get_esc (tl rest) of
                     None \<Rightarrow> None
                   | Some (hi, rest1) \<Rightarrow> glob_ranges rest1 (rs @ [(lo, hi)]))
                else glob_ranges rest (rs @ [(lo, lo)])))"
  by pat_completeness auto
termination
  by (relation "measure (\<lambda>(c, rs). length c)") (auto dest!: get_esc_shrinks simp: less_diff_conv)

lemma glob_ranges_shrinks: "glob_ranges c rs = Some (rs', rest) \<Longrightarrow> length rest < length c"
proof (induction c rs rule: glob_ranges.induct)
  case (1 c rs)
  show ?case
  proof (cases "c \<noteq> '''' \<and> hd c = CHR '']'' \<and> rs \<noteq> []")
    case True
    with "1.prems" show ?thesis by (cases c) (auto simp: glob_ranges.simps [of c rs])
  next
    case False
    then obtain lo rest1 where g: "get_esc c = Some (lo, rest1)"
      using "1.prems" by (auto simp: glob_ranges.simps [of c rs] split: option.splits)
    show ?thesis
    proof (cases "hd rest1 = CHR ''-''")
      case dash: True
      then obtain hi rest2 where h: "get_esc (tl rest1) = Some (hi, rest2)"
        using "1.prems" False g by (auto simp: glob_ranges.simps [of c rs] split: option.splits)
      have "glob_ranges rest2 (rs @ [(lo, hi)]) = Some (rs', rest)"
        using "1.prems" False g dash h by (simp add: glob_ranges.simps [of c rs])
      from "1.IH"(1) [OF False g refl dash h refl this] get_esc_shrinks [OF g] get_esc_shrinks [OF h]
      show ?thesis by simp
    next
      case nodash: False
      have "glob_ranges rest1 (rs @ [(lo, lo)]) = Some (rs', rest)"
        using "1.prems" False g nodash by (simp add: glob_ranges.simps [of c rs])
      from "1.IH"(2) [OF False g refl nodash this] get_esc_shrinks [OF g] show ?thesis by simp
    qed
  qed
qed

declare glob_ranges.simps [simp del]

function glob_tokens :: "string \<Rightarrow> glob_token list option" where
  "glob_tokens [] = Some []"
| "glob_tokens (c # p) =
     (if c = CHR ''*'' then map_option (Cons GStar) (glob_tokens p)
      else if c = CHR ''?'' then map_option (Cons GAny) (glob_tokens p)
      else if c = CHR ''['' then
        (let neg = (p \<noteq> '''' \<and> hd p = CHR 0x5E) in
         case glob_ranges (if neg then tl p else p) [] of
           None \<Rightarrow> None
         | Some (rs, rest) \<Rightarrow> map_option (Cons (GClass neg rs)) (glob_tokens rest))
      else if c = backslash then
        (case p of [] \<Rightarrow> None | e # q \<Rightarrow> map_option (Cons (GLit e)) (glob_tokens q))
      else map_option (Cons (GLit c)) (glob_tokens p))"
  by pat_completeness auto
termination
  by (relation "measure length") (auto dest!: glob_ranges_shrinks split: if_splits)

function glob :: "glob_token list \<Rightarrow> string \<Rightarrow> bool" where
  "glob [] s \<longleftrightarrow> s = []"
| "glob (GStar # ts) s \<longleftrightarrow>
     (if glob ts s then True else if s = [] \<or> hd s = slash then False else glob (GStar # ts) (tl s))"
| "glob (GAny # ts) s \<longleftrightarrow> (if s = [] \<or> hd s = slash then False else glob ts (drop (rune_size s) s))"
| "glob (GClass neg rs # ts) s \<longleftrightarrow>
     (if s = [] then False
      else if list_ex (\<lambda>(lo, hi). lo \<le> fst (decode_rune s) \<and> fst (decode_rune s) \<le> hi) rs = neg then False
      else glob ts (drop (rune_size s) s))"
| "glob (GLit c # ts) s \<longleftrightarrow> (if s = [] \<or> hd s \<noteq> c then False else glob ts (tl s))"
  by pat_completeness auto
termination
  by (relation "measures [\<lambda>(ts, s). length ts, \<lambda>(ts, s). length s]") auto

definition glob_match :: "string \<Rightarrow> string \<Rightarrow> bool" where
  "glob_match pattern name = (case glob_tokens pattern of None \<Rightarrow> False | Some ts \<Rightarrow> glob ts name)"

text \<open>\<open>fieldSeparator\<close>: the delimiter on the most lines, the earlier one on a tie; none on no line.\<close>

definition separators :: "char list" where
  "separators = [CHR '','', CHR '';'', CHR 0x09, CHR ''|'']"

definition lines_with :: "char \<Rightarrow> string list \<Rightarrow> nat" where
  "lines_with c ls = length (filter (\<lambda>l. c \<in> set l) ls)"

definition field_separator :: "string list \<Rightarrow> char option" where
  "field_separator ls =
     fst (foldl (\<lambda>(best, n) c. if lines_with c ls > n then (Some c, lines_with c ls) else (best, n)) (None, 0) separators)"

text \<open>\<open>looksLikeCSV\<close> of the bytes read, none when the file could not be opened or read.\<close>

definition looks_like_csv :: "(string \<Rightarrow> string \<Rightarrow> string res) \<Rightarrow> string \<Rightarrow> string option \<Rightarrow> bool" where
  "looks_like_csv dec encoding sample =
     (case sample of
        None \<Rightarrow> False
      | Some data \<Rightarrow>
          if data = '''' then False
          else (case normalize_encoding encoding of
                  Inl e \<Rightarrow> False
                | Inr name \<Rightarrow>
                    (let decoded = decode_sample dec data name in
                     if decoded = '''' then False
                     else if CHR 0x00 \<in> set decoded then False
                     else
                      (let ls = split_on newline (drop_last newline decoded) in
                       if length ls < 2 then list_ex (\<lambda>c. c \<in> {CHR '','', CHR '';'', CHR 0x09}) (hd ls)
                       else (case field_separator ls of
                               None \<Rightarrow> False
                             | Some sep \<Rightarrow>
                                 (let counts = map (\<lambda>l. count_list l sep) (filter (\<lambda>l. trim_space l \<noteq> '''') ls);
                                      occurrences = foldr max (map (count_list counts) counts) 0
                                  in occurrences * 4 \<ge> length counts * 3))))))"

section \<open>Discovery\<close>

text \<open>Younger than the stable window; a time in the future does not count as young.\<close>

definition too_young :: "source \<Rightarrow> time \<Rightarrow> time \<Rightarrow> bool" where
  "too_young s now mtime \<longleftrightarrow>
     s_window s > 0 \<and> 0 \<le> time_sub now mtime \<and> time_sub now mtime < s_window s"

definition same_file :: "file_info \<Rightarrow> file_info \<Rightarrow> bool" where
  "same_file a b \<longleftrightarrow> fi_size a = fi_size b \<and> fi_mtime a = fi_mtime b"

definition found :: "source \<Rightarrow> string \<Rightarrow> string \<Rightarrow> file_info \<Rightarrow> string \<Rightarrow> file_identity" where
  "found s path name info hx =
     \<lparr>f_source = source_name s, f_path = path, f_name = name, f_size = fi_size info, f_mtime = fi_mtime info, f_hash = hx\<rparr>"

definition classified :: "view \<Rightarrow> string \<Rightarrow> err \<Rightarrow> err" where
  "classified vw path e = classify_source_error (vw_platform vw) (vw_net vw) (go_quote path) e"

text \<open>What the callback of the walk does with one visit: the files found, and the number too young.\<close>

definition visit_file ::
  "view \<Rightarrow> source \<Rightarrow> string \<Rightarrow> visit \<Rightarrow> file_identity list \<times> nat \<Rightarrow> (file_identity list \<times> nat) res" where
  "visit_file vw s dir v acc =
     (let (out, unstable) = acc in
      case v_err v of Some e \<Rightarrow> Inl (classified vw (v_path v) e)
      | None \<Rightarrow>
          if v_path v = dir \<or> v_dir v \<or> v_symlink v then Inr acc
          else if is_system_junk (v_name v) then Inr acc
          else if \<not> s_content_detect s \<and> \<not> glob_match (s_pattern s) (v_name v) then Inr acc
          else
           (case v_info v of Inl e \<Rightarrow> Inl (classified vw (v_path v) e)
            | Inr info \<Rightarrow>
                if fi_dir info then Inr acc
                else if too_young s (vw_now vw) (fi_mtime info) then Inr (out, unstable + 1)
                else
                 (case v_stat v of Inl e \<Rightarrow> Inl (classified vw (v_path v) e)
                  | Inr info2 \<Rightarrow>
                      if \<not> same_file info2 info then Inr acc
                      else if s_content_detect s \<and> \<not> looks_like_csv (vw_dec vw) (s_encoding s) (v_sample v) then Inr acc
                      else Inr (out @ [found s (v_path v) (v_name v) info2 ''''], unstable))))"

fun walk_dir ::
  "view \<Rightarrow> source \<Rightarrow> string \<Rightarrow> visit list \<Rightarrow> file_identity list \<times> nat \<Rightarrow> (file_identity list \<times> nat) res" where
  "walk_dir vw s dir [] acc = Inr acc"
| "walk_dir vw s dir (v # vs) acc =
     (case visit_file vw s dir v acc of Inl e \<Rightarrow> Inl e | Inr acc1 \<Rightarrow> walk_dir vw s dir vs acc1)"

definition list_walk :: "view \<Rightarrow> collection_date \<Rightarrow> source \<Rightarrow> file_identity list res" where
  "list_walk vw date s =
     (case walk_dir vw s (date_dir s date) (vw_walk vw (date_dir s date)) ([], 0) of
        Inl e \<Rightarrow> Inl e
      | Inr (out, unstable) \<Rightarrow>
          if out = [] \<and> unstable > 0 then
            Inl (source_error err_file_unstable (Wrapped (nat_dec unstable @ '' file(s) inside the stable window'') []))
          else Inr (sort_key f_path out))"

definition list_dated_filename :: "view \<Rightarrow> collection_date \<Rightarrow> source \<Rightarrow> file_identity list res" where
  "list_dated_filename vw date s =
     (case vw_ctx vw 1 of Some e \<Rightarrow> Inl e
      | None \<Rightarrow>
         (let name = render_dated (s_name_layout s) (civil_date date); path = path_join [date_dir s date, name] in
          case vw_stat vw 0 path of Inl e \<Rightarrow> Inl (classified vw path e)
          | Inr info \<Rightarrow>
              if fi_dir info then
                Inl (source_error err_not_found (Wrapped (''dated filename '' @ go_quote path @ '' is a directory'') []))
              else if too_young s (vw_now vw) (fi_mtime info) then
                Inl (source_error err_file_unstable (Wrapped (''dated file '' @ go_quote path @ '' is still being written'') []))
              else
               (case vw_stat vw 1 path of Inl e \<Rightarrow> Inl (classified vw path e)
                | Inr info2 \<Rightarrow>
                    if \<not> same_file info2 info then Inr []
                    else if \<not> s_hash s then Inr [found s path name info2 '''']
                    else (case vw_sha vw path of Inl e \<Rightarrow> Inl e | Inr hx \<Rightarrow> Inr [found s path name info2 hx]))))"

definition list_flat :: "view \<Rightarrow> source \<Rightarrow> file_identity list res \<times> source" where
  "list_flat vw s =
     (case vw_ctx vw 1 of Some e \<Rightarrow> (Inl e, s)
      | None \<Rightarrow>
         (let path = s_root s in
          case vw_stat vw 0 path of Inl e \<Rightarrow> (Inl (classified vw path e), s)
          | Inr info \<Rightarrow>
              if fi_dir info then
                (Inl (source_error err_not_found (Wrapped (''flat source '' @ go_quote path @ '' is a directory'') [])), s)
              else if too_young s (vw_now vw) (fi_mtime info) then
                (Inl (source_error err_file_unstable (Wrapped (''flat file '' @ go_quote path @ '' is still being written'') [])), s)
              else
               (case vw_stat vw 1 path of Inl e \<Rightarrow> (Inl (classified vw path e), s)
                | Inr info2 \<Rightarrow>
                    if \<not> same_file info2 info then (Inr [], s)
                    else if \<not> s_hash s then (Inr [found s path (path_base path) info2 ''''], s)
                    else
                     (case vw_sha vw path of Inl e \<Rightarrow> (Inl (classified vw path e), s)
                      | Inr hx \<Rightarrow>
                          (let s1 = s\<lparr>s_last_hash := AList.update path hx (s_last_hash s)\<rparr> in
                           if (case map_of (s_last_hash s) path of None \<Rightarrow> '''' | Some h \<Rightarrow> h) = hx then (Inr [], s1)
                           else (Inr [found s path (path_base path) info2 hx], s1))))))"

definition list_source :: "view \<Rightarrow> collection_date \<Rightarrow> source \<Rightarrow> file_identity list res \<times> source" where
  "list_source vw date s =
     (case vw_ctx vw 0 of Some e \<Rightarrow> (Inl e, s)
      | None \<Rightarrow>
         (let s1 = normalize_source s in
          case check_host_gate (vw_reach vw) (s_raw_root s1) of Some e \<Rightarrow> (Inl e, s1)
          | None \<Rightarrow>
              if s_flat s1 then list_flat vw s1
              else if s_name_layout s1 \<noteq> '''' then (list_dated_filename vw date s1, s1)
              else (list_walk vw date s1, s1)))"

section \<open>Opening a file\<close>

definition changed_since :: "file_identity \<Rightarrow> file_info \<Rightarrow> bool" where
  "changed_since file info \<longleftrightarrow> fi_size info \<noteq> f_size file \<or> fi_mtime info \<noteq> f_mtime file"

text \<open>\<open>Read\<close>: what stat, open and the open file's stat answer; the result is the open file or an error.\<close>

definition read_source ::
  "view \<Rightarrow> ctx \<Rightarrow> file_info res \<Rightarrow> unit res \<Rightarrow> file_info res \<Rightarrow> file_identity \<Rightarrow> unit res" where
  "read_source vw c stat0 opened stat1 file =
     (case c of Some e \<Rightarrow> Inl e
      | None \<Rightarrow>
          if f_path file = '''' then Inl (source_error err_invalid_file (Wrapped ''empty file path'' []))
          else
           (case stat0 of Inl e \<Rightarrow> Inl (classified vw (f_path file) e)
            | Inr info \<Rightarrow>
                if changed_since file info then
                  Inl (source_error err_source_changed (Wrapped (f_path file @ '' changed after discovery'') []))
                else
                 (case opened of Inl e \<Rightarrow> Inl (classified vw (f_path file) e)
                  | Inr u \<Rightarrow>
                      (case stat1 of Inl e \<Rightarrow> Inl (classified vw (f_path file) e)
                       | Inr after \<Rightarrow>
                           if changed_since file after then
                             Inl (source_error err_source_changed (Wrapped (f_path file @ '' changed during open'') []))
                           else Inr ()))))"

end
