(* ===== verification/SourceProps.thy ===== *)
theory SourceProps
  imports Source CollectorScope
begin

text \<open>
  What discovery promises, and what becomes of its answers in the executor: the walk's result as
  a filter of the visited files, the files it leaves out, and the flat source that remembers a
  content hash.
\<close>

section \<open>The walk as a filter\<close>

text \<open>A visit that is asked about at all: a regular file with a name the source is after.\<close>

definition candidate :: "source \<Rightarrow> string \<Rightarrow> visit \<Rightarrow> bool" where
  "candidate s dir v \<longleftrightarrow>
     v_path v \<noteq> dir \<and> \<not> v_dir v \<and> \<not> v_symlink v \<and> \<not> is_system_junk (v_name v) \<and>
     (s_content_detect s \<or> glob_match (s_pattern s) (v_name v)) \<and>
     (case v_info v of Inl e \<Rightarrow> True | Inr info \<Rightarrow> \<not> fi_dir info)"

definition young_visit :: "view \<Rightarrow> source \<Rightarrow> string \<Rightarrow> visit \<Rightarrow> bool" where
  "young_visit vw s dir v \<longleftrightarrow> candidate s dir v \<and> (\<exists>info. v_info v = Inr info \<and> too_young s (vw_now vw) (fi_mtime info))"

definition taken :: "view \<Rightarrow> source \<Rightarrow> string \<Rightarrow> visit \<Rightarrow> file_identity option" where
  "taken vw s dir v =
     (if candidate s dir v \<and> \<not> young_visit vw s dir v then
        (case (v_info v, v_stat v) of
           (Inr info, Inr info2) \<Rightarrow>
             if same_file info2 info \<and> (\<not> s_content_detect s \<or> looks_like_csv (vw_dec vw) (s_encoding s) (v_sample v))
             then Some (found s (v_path v) (v_name v) info2 '''') else None
         | _ \<Rightarrow> None)
      else None)"

lemma visit_file_spec:
  "visit_file vw s dir v (out, n) = Inr acc \<Longrightarrow>
     acc = (out @ (case taken vw s dir v of None \<Rightarrow> [] | Some f \<Rightarrow> [f]), n + (if young_visit vw s dir v then 1 else 0))"
  by (auto simp: visit_file_def taken_def young_visit_def candidate_def Let_def split: option.splits if_splits sum.splits)

lemma walk_dir_spec:
  "walk_dir vw s dir vs (out, n) = Inr acc \<Longrightarrow>
     acc = (out @ List.map_filter (taken vw s dir) vs, n + length (filter (young_visit vw s dir) vs))"
proof (induction vs arbitrary: out n)
  case (Cons v vs)
  then obtain acc1 where v: "visit_file vw s dir v (out, n) = Inr acc1" "walk_dir vw s dir vs acc1 = Inr acc"
    by (auto split: sum.splits)
  note a = visit_file_spec [OF v(1)]
  from Cons.IH [OF v(2) [unfolded a]] show ?case
    by (auto simp: List.map_filter_simps split: option.split)
qed (simp add: List.map_filter_simps)

lemma sort_key_Nil_iff: "sort_key f xs = [] \<longleftrightarrow> xs = []"
  by (metis set_empty set_sort)

text \<open>The files of a walk that succeeded, and what it says when all of them are young.\<close>

lemma list_walk_spec:
  assumes "list_walk vw date s = Inr fs" "dir = date_dir s date"
  shows "fs = sort_key f_path (List.map_filter (taken vw s dir) (vw_walk vw dir)) \<and>
    (fs = [] \<longrightarrow> (\<forall>v \<in> set (vw_walk vw dir). \<not> young_visit vw s dir v))"
proof -
  obtain out n where w: "walk_dir vw s dir (vw_walk vw dir) ([], 0) = Inr (out, n)"
    using assms by (auto simp: list_walk_def split: sum.splits)
  from walk_dir_spec [OF w] have o: "out = List.map_filter (taken vw s dir) (vw_walk vw dir)"
    "n = length (filter (young_visit vw s dir) (vw_walk vw dir))" by simp_all
  have "fs = sort_key f_path out" "fs = [] \<longrightarrow> n = 0"
    using assms w by (auto simp: list_walk_def sort_key_Nil_iff split: if_splits)
  with o show ?thesis by (auto simp: filter_empty_conv)
qed

lemma taken_path: "taken vw s dir v = Some f \<Longrightarrow> f_path f = v_path v \<and> \<not> young_visit vw s dir v"
  by (auto simp: taken_def found_def split: if_splits sum.splits)

lemma young_not_listed:
  assumes "list_walk vw date s = Inr fs" "dir = date_dir s date" "distinct (map v_path (vw_walk vw dir))"
    and "v \<in> set (vw_walk vw dir)" "young_visit vw s dir v"
  shows "v_path v \<notin> f_path ` set fs"
proof
  assume "v_path v \<in> f_path ` set fs"
  then obtain f where f: "f \<in> set fs" "f_path f = v_path v" by auto
  then have "f \<in> set (List.map_filter (taken vw s dir) (vw_walk vw dir))"
    using list_walk_spec [OF assms(1,2)] by simp
  then obtain u where "u \<in> set (vw_walk vw dir)" "taken vw s dir u = Some f"
    by (auto simp: List.map_filter_def)
  with taken_path [of vw s dir u f] f(2) assms(3-5) show False
    by (auto simp: distinct_map inj_on_def)
qed

section \<open>A file written too late for its date\<close>

definition closed :: "collection_key \<Rightarrow> 'h world \<Rightarrow> bool" where
  "closed key w \<longleftrightarrow> mem_status_of key (mem (fs_of w)) = Some StatusSucceeded \<and> \<not> append_mode (mem (fs_of w))"

lemma closed_begin:
  assumes "closed key w" "d_ctx d (tick w) = None"
  shows "st_begin d key w = ((False, None), ticked 1 w)"
proof -
  have "mem_begin None now key lease (mem (fs_of w)) = (Inr False, mem (fs_of w))" for now lease
    using assms(1) by (auto simp: closed_def mem_status_of_def mem_begin_def split: option.splits)
  with assms(2) show ?thesis by (simp add: st_begin_def fs_begin_def)
qed

lemma closed_one:
  assumes "closed key w" "d_ctx d (tick w + 2) = None"
    and "\<And>e. d_list d (tick w + 1) key = Inl e \<Longrightarrow> \<not> err_is (d_platform d) e err_not_found"
  shows "store_of (snd (collect_one d key w)) = store_of w \<and> mem (fs_of (snd (collect_one d key w))) = mem (fs_of w) \<and>
    (\<forall>res. fst (collect_one d key w) = Some res \<longrightarrow> cr_files res = [] \<and> cr_records res = 0)"
proof -
  have "st_begin d key (ticked 2 w) = ((False, None), ticked 1 (ticked 2 w))"
    using assms(1,2) by (intro closed_begin) (simp_all add: closed_def)
  with assms show ?thesis
    by (auto simp: collect_one_def Let_def closed_def split: sum.split list.split)
qed

lemma append_kept: "append_mode (mem (fs_of (snd (collect_one d key w)))) = append_mode (mem (fs_of w))"
proof -
  have one: "append_mode (apply_op op s) = append_mode s" if "op_key op = Some key" for op s
    using that by (cases op) (auto simp: mem_defs split: option.split)
  have "append_mode (fold apply_op ops s) = append_mode s" if "list_all (\<lambda>op. op_key op = Some key) ops" for ops s
    using that by (induction ops arbitrary: s) (simp_all add: one)
  then show ?thesis using ops_one [of key w d] by (auto simp: only_ops_def)
qed

lemma closed_kept:
  assumes "healthy d accepts" "\<forall>t e. d_list d t key = Inl e \<longrightarrow> \<not> err_is (d_platform d) e err_not_found" "closed key w"
  shows "closed key (fold (\<lambda>k u. snd (collect_one d k u)) ks w)"
  using assms(3)
proof (induction ks arbitrary: w)
  case (Cons k ks)
  have "mem_status_of key (mem (fs_of (snd (collect_one d k w)))) = mem_status_of key (mem (fs_of w))" if "k \<noteq> key"
    by (rule other_key_ops [OF ops_one]) (use that in auto)
  then have "closed key (snd (collect_one d k w))"
    using closed_one [OF Cons.prems, of d] healthyD [OF assms(1)] assms(2) append_kept [of d k w] Cons.prems
    by (cases "k = key") (auto simp: closed_def)
  from Cons.IH [OF this] show ?case by simp
qed simp

text \<open>C37. A file inside its stable window is left out of discovery when another file of the date is old
enough. When nothing fails and the ledger is not in append mode, the date is then collected and
succeeds without it. From then on, whatever dates are collected in whatever order, collecting this
date stores nothing and reports no file, whatever discovery lists, as long as it never says that
the date is not there: the late file is lost, although the ledger says Succeeded.\<close>

theorem young_file_is_lost:
  assumes "healthy d accepts" "accepts (store_of w)" "\<not> append_mode (mem (fs_of w))"
    and "list_walk vw date s = Inr fs" "fs \<noteq> []" "d_list d (tick w + 1) key = Inr fs"
    and "dir = date_dir s date" "distinct (map v_path (vw_walk vw dir))" "v \<in> set (vw_walk vw dir)" "young_visit vw s dir v"
    and "may_begin (d_now d (tick w + 2)) key (mem (fs_of w))"
    and "\<forall>t e. d_list d t key = Inl e \<longrightarrow> \<not> err_is (d_platform d) e err_not_found"
  shows "v_path v \<notin> f_path ` set fs \<and>
    (\<exists>res w'. collect_one d key w = (Some res, w') \<and> cr_status res = StatusSucceeded \<and> map fr_file (cr_files res) = fs \<and>
       mem_status_of key (mem (fs_of w')) = Some StatusSucceeded \<and>
       (\<forall>ks w2. mem (fs_of w2) = mem (fs_of (fold (\<lambda>k u. snd (collect_one d k u)) ks w')) \<longrightarrow>
          store_of (snd (collect_one d key w2)) = store_of w2 \<and>
          mem_status_of key (mem (fs_of (snd (collect_one d key w2)))) = Some StatusSucceeded \<and>
          (\<forall>r. fst (collect_one d key w2) = Some r \<longrightarrow> cr_files r = [] \<and> cr_records r = 0)))"
proof (rule conjI)
  show "v_path v \<notin> f_path ` set fs" by (rule young_not_listed [OF assms(4,7-10)])
  obtain res w' where r: "collect_one d key w = (Some res, w')" "cr_status res = StatusSucceeded"
    "map fr_file (cr_files res) = fs" "mem_status_of key (mem (fs_of w')) = Some StatusSucceeded"
    using healthy_one [OF assms(1,2,6,5,11)] by auto
  have "\<not> append_mode (mem (fs_of w'))" using append_kept [of d key w] r(1) assms(3) by simp
  with r(4) have now: "closed key w'" by (simp add: closed_def)
  have later: "store_of (snd (collect_one d key w2)) = store_of w2 \<and>
      mem_status_of key (mem (fs_of (snd (collect_one d key w2)))) = Some StatusSucceeded \<and>
      (\<forall>r. fst (collect_one d key w2) = Some r \<longrightarrow> cr_files r = [] \<and> cr_records r = 0)"
    if "mem (fs_of w2) = mem (fs_of (fold (\<lambda>k u. snd (collect_one d k u)) ks w'))" for ks w2
  proof -
    have c: "closed key w2" using closed_kept [OF assms(1,12) now, of ks] that by (simp add: closed_def)
    have "d_ctx d (tick w2 + 2) = None" by (rule healthyD [OF assms(1)])
    with closed_one [OF c, of d] assms(12) c show ?thesis by (simp add: closed_def)
  qed
  with r show "\<exists>res w'. collect_one d key w = (Some res, w') \<and> cr_status res = StatusSucceeded \<and> map fr_file (cr_files res) = fs \<and>
       mem_status_of key (mem (fs_of w')) = Some StatusSucceeded \<and>
       (\<forall>ks w2. mem (fs_of w2) = mem (fs_of (fold (\<lambda>k u. snd (collect_one d k u)) ks w')) \<longrightarrow>
          store_of (snd (collect_one d key w2)) = store_of w2 \<and>
          mem_status_of key (mem (fs_of (snd (collect_one d key w2)))) = Some StatusSucceeded \<and>
          (\<forall>r. fst (collect_one d key w2) = Some r \<longrightarrow> cr_files r = [] \<and> cr_records r = 0))" by blast
qed

text \<open>A directory with a file of 100 and a file of 10 nanoseconds, and a window of 50.\<close>

definition visit_of :: "string \<Rightarrow> string \<Rightarrow> time \<Rightarrow> visit" where
  "visit_of dir name mtime =
     (let info = Inr \<lparr>fi_size = 8, fi_mtime = mtime, fi_dir = False\<rparr> in
      \<lparr>v_path = dir @ slash # name, v_err = None, v_name = name, v_dir = False, v_symlink = False,
       v_info = info, v_stat = info, v_sample = None\<rparr>)"

lemma visit_of_sel [simp]:
  "v_path (visit_of dir name t) = dir @ slash # name" "v_err (visit_of dir name t) = None"
  "v_name (visit_of dir name t) = name" "v_dir (visit_of dir name t) = False" "v_symlink (visit_of dir name t) = False"
  "v_info (visit_of dir name t) = Inr \<lparr>fi_size = 8, fi_mtime = t, fi_dir = False\<rparr>"
  "v_stat (visit_of dir name t) = Inr \<lparr>fi_size = 8, fi_mtime = t, fi_dir = False\<rparr>"
  by (simp_all add: visit_of_def Let_def)

definition two_files :: view where
  "two_files = \<lparr>vw_platform = Unix, vw_net = [], vw_reach = \<lambda>h. True, vw_ctx = \<lambda>t. None, vw_now = 100,
     vw_walk = \<lambda>dir. [visit_of dir ''a.csv'' 0, visit_of dir ''b.csv'' 90], vw_stat = \<lambda>t p. Inl os_not_exist,
     vw_sha = \<lambda>p. Inl os_not_exist, vw_dec = \<lambda>n s. Inr s\<rparr>"

definition line_source :: source where
  "line_source = normalize_source (new_source ''line-1'' ''/data'' '''' 50)"

definition listing_plant :: "mem_store deps" where
  "listing_plant = (with_memory plant)\<lparr>d_list := \<lambda>t k. list_walk two_files (k_date k) line_source\<rparr>"

lemma line_source_sel:
  "s_pattern line_source = ''*.csv''" "s_content_detect line_source = False" "s_window line_source = 50"
  by code_simp+

lemma sample_candidates:
  "candidate line_source dir (visit_of dir ''a.csv'' t)" "candidate line_source dir (visit_of dir ''b.csv'' t)"
proof -
  have "glob_match ''*.csv'' ''a.csv''" "glob_match ''*.csv'' ''b.csv''" "\<not> is_system_junk ''a.csv''"
    "\<not> is_system_junk ''b.csv''" by code_simp+
  then show "candidate line_source dir (visit_of dir ''a.csv'' t)" "candidate line_source dir (visit_of dir ''b.csv'' t)"
    by (simp_all add: candidate_def line_source_sel)
qed

lemma two_files_sel:
  "vw_walk two_files dir = [visit_of dir ''a.csv'' 0, visit_of dir ''b.csv'' 90]" "vw_now two_files = 100"
  by (simp_all add: two_files_def)

lemma sample_ages:
  "\<not> young_visit two_files line_source dir (visit_of dir ''a.csv'' 0)"
  "young_visit two_files line_source dir (visit_of dir ''b.csv'' 90)"
  using sample_candidates [of dir 0] sample_candidates [of dir 90]
  by (simp_all add: young_visit_def too_young_def line_source_sel two_files_sel time_sub_def max_duration_def)

lemma sample_walk:
  "\<exists>f. f_path f = date_dir line_source date @ ''/a.csv'' \<and> list_walk two_files date line_source = Inr [f]"
proof -
  let ?dir = "date_dir line_source date"
  have v: "visit_file two_files line_source ?dir (visit_of ?dir ''a.csv'' 0) ([], 0) =
      Inr ([found line_source (?dir @ ''/a.csv'') ''a.csv'' \<lparr>fi_size = 8, fi_mtime = 0, fi_dir = False\<rparr> ''''], 0)"
    "visit_file two_files line_source ?dir (visit_of ?dir ''b.csv'' 90) (out, 0) = Inr (out, 1)" for out
    using sample_candidates [of ?dir] sample_ages [of ?dir]
    by (auto simp: visit_file_def young_visit_def candidate_def line_source_sel same_file_def Let_def)
  show ?thesis
    by (simp add: list_walk_def two_files_sel v found_def)
qed

theorem young_file_is_lost_witness:
  "\<exists>dir res w'. collect_one listing_plant key_1 sample_start = (Some res, w') \<and> cr_status res = StatusSucceeded \<and>
     dir @ ''/b.csv'' \<in> v_path ` set (vw_walk two_files dir) \<and>
     list_all (\<lambda>fr. f_path (fr_file fr) \<noteq> dir @ ''/b.csv'') (cr_files res) \<and>
     mem_status_of key_1 (mem (fs_of w')) = Some StatusSucceeded \<and>
     store_of (snd (collect_one listing_plant key_1 w')) = store_of w'"
proof -
  let ?dir = "date_dir line_source (k_date key_1)"
  obtain f where f: "list_walk two_files (k_date key_1) line_source = Inr [f]" using sample_walk by blast
  have h: "healthy listing_plant accepting" using plant_healthy by (simp add: healthy_def listing_plant_def)
  have l: "d_list listing_plant (tick sample_start + 1) key_1 = Inr [f]" by (simp add: listing_plant_def f)
  have b: "may_begin (d_now listing_plant (tick sample_start + 2)) key_1 (mem (fs_of sample_start))"
    by (simp add: may_begin_def mem_begin_def sample_accepting new_memory_def)
  have v: "visit_of ?dir ''b.csv'' 90 \<in> set (vw_walk two_files ?dir)" by (simp add: two_files_sel)
  have a: "\<not> append_mode (mem (fs_of sample_start))" by (simp add: sample_accepting new_memory_def)
  have p: "distinct (map v_path (vw_walk two_files ?dir))" by (simp add: two_files_sel)
  have e: "\<forall>t e. d_list listing_plant t key_1 = Inl e \<longrightarrow> \<not> err_is (d_platform listing_plant) e err_not_found"
    by (simp add: listing_plant_def f)
  have n: "[f] \<noteq> []" by simp
  note y = young_file_is_lost [OF h sample_accepting(1) a f n l refl p v sample_ages(2) b e]
  from y [THEN conjunct1] y [THEN conjunct2] obtain res w' where r: "?dir @ ''/b.csv'' \<notin> f_path ` set [f]" "collect_one listing_plant key_1 sample_start = (Some res, w')"
    "cr_status res = StatusSucceeded" "map fr_file (cr_files res) = [f]"
    "mem_status_of key_1 (mem (fs_of w')) = Some StatusSucceeded"
    and later: "\<forall>ks w2. mem (fs_of w2) = mem (fs_of (fold (\<lambda>k u. snd (collect_one listing_plant k u)) ks w')) \<longrightarrow>
      store_of (snd (collect_one listing_plant key_1 w2)) = store_of w2 \<and>
      mem_status_of key_1 (mem (fs_of (snd (collect_one listing_plant key_1 w2)))) = Some StatusSucceeded \<and>
      (\<forall>r. fst (collect_one listing_plant key_1 w2) = Some r \<longrightarrow> cr_files r = [] \<and> cr_records r = 0)"
    unfolding visit_of_sel by (elim exE conjE) (rule that, assumption+)
  have again: "store_of (snd (collect_one listing_plant key_1 w2)) = store_of w2" if "mem (fs_of w2) = mem (fs_of w')" for w2
    using later [THEN spec, of "[]"] that by simp
  have "list_all (\<lambda>fr. f_path (fr_file fr) \<noteq> ?dir @ ''/b.csv'') (cr_files res)" using r(1,4) by (auto simp: list_all_iff map_eq_Cons_conv)
  moreover have "?dir @ ''/b.csv'' \<in> v_path ` set (vw_walk two_files ?dir)" using v by force
  ultimately show ?thesis using r(2,3,5) again [OF refl] by blast
qed

section \<open>The flat source's memory\<close>

text \<open>A flat source that has seen the content \<open>h\<close>.\<close>

definition remembers :: "source \<Rightarrow> string \<Rightarrow> bool" where
  "remembers s h \<longleftrightarrow> s_normalized s \<and> s_flat s \<and> s_hash s \<and> map_of (s_last_hash s) (s_root s) = Some h"

lemma list_flat_remembers:
  assumes "s_normalized s" "s_flat s" "s_hash s" "list_flat vw s = (Inr [f], s1)"
  shows "remembers s1 (f_hash f) \<and> s_root s1 = s_root s"
  using assms by (auto simp: list_flat_def remembers_def found_def Let_def update_conv' split: option.splits sum.splits if_splits)

lemma list_flat_again:
  assumes "remembers s h" "vw_sha vw (s_root s) = Inr h" "list_flat vw s = (r, s1)"
  shows "(r = Inr [] \<or> (\<exists>x. r = Inl x)) \<and> remembers s1 h \<and> s_root s1 = s_root s"
  using assms by (auto simp: list_flat_def remembers_def Let_def update_conv' split: option.splits sum.splits if_splits)

lemma normalized_source [simp]: "s_normalized s \<Longrightarrow> normalize_source s = s"
  by (simp add: normalize_source_def)

lemma normalize_source_sel [simp]:
  "s_normalized (normalize_source s)" "s_flat (normalize_source s) = s_flat s" "s_hash (normalize_source s) = s_hash s"
  by (simp_all add: normalize_source_def Let_def)

text \<open>Later discoveries, one after the other.\<close>

fun rediscover :: "(view \<times> collection_date) list \<Rightarrow> source \<Rightarrow> file_identity list res list" where
  "rediscover [] s = []"
| "rediscover ((vw, date) # later) s = (case list_source vw date s of (r, s1) \<Rightarrow> r # rediscover later s1)"

lemma rediscover_nothing:
  "remembers s h \<Longrightarrow> list_all (\<lambda>(vw, date). vw_sha vw (s_root s) = Inr h) later \<Longrightarrow>
     list_all (\<lambda>r. r = Inr [] \<or> (\<exists>x. r = Inl x)) (rediscover later s)"
proof (induction later arbitrary: s)
  case (Cons a later)
  obtain vw date where a: "a = (vw, date)" by fastforce
  obtain r s1 where l: "list_source vw date s = (r, s1)" by fastforce
  have "(r = Inr [] \<or> (\<exists>x. r = Inl x)) \<and> remembers s1 h \<and> s_root s1 = s_root s"
    using Cons.prems l list_flat_again [of s h vw r s1]
    by (auto simp: a list_source_def remembers_def Let_def split: option.splits)
  with Cons.IH [of s1] Cons.prems(2) l show ?case by (simp add: a)
qed simp

lemma nothing_collected:
  assumes "d_list d (tick w + 1) key = Inr [] \<or> (\<exists>x. d_list d (tick w + 1) key = Inl x)" "collect_one d key w = (r, w')"
  shows "store_of w' = store_of w \<and> (\<forall>res. r = Some res \<longrightarrow> cr_files res = [] \<and> cr_records res = 0 \<and> cr_status res \<noteq> StatusSucceeded)"
proof -
  have b: "store_of w1 = store_of w" if "st_begin d key (ticked 2 w) = (x, w1)" for x w1
    using st_frame(1) [of d key "ticked 2 w"] that by simp
  show ?thesis
    using assms by (auto simp: collect_one_def Let_def b split: if_splits prod.splits option.splits bool.splits)
qed

text \<open>C38. A flat source with content hashes remembers a content when it discovers it, not when it has
been collected: once discovery has given the file, and as long as every later discovery finds the
same content, each of them lists nothing or fails, and no attempt that uses one of those answers
stores a row, reports a file or succeeds, whatever became of the first attempt. A collection that
failed is therefore not retried while the program runs and the content stays.\<close>

theorem failed_flat_file_is_not_retried:
  assumes "s_flat s" "s_hash s" "list_source vw date s = (Inr [f], s1)"
    and "list_all (\<lambda>(v, dt). vw_sha v (s_root s1) = Inr (f_hash f)) later"
  shows "list_all (\<lambda>r. r = Inr [] \<or> (\<exists>x. r = Inl x)) (rediscover later s1) \<and>
    (\<forall>(d :: 'h deps) w key r w'.
       d_list d (tick w + 1) key \<in> set (rediscover later s1) \<and> collect_one d key w = (r, w') \<longrightarrow>
       store_of w' = store_of w \<and>
       (\<forall>res. r = Some res \<longrightarrow> cr_files res = [] \<and> cr_records res = 0 \<and> cr_status res \<noteq> StatusSucceeded))"
proof -
  have "list_flat vw (normalize_source s) = (Inr [f], s1)"
    using assms(1,3) by (auto simp: list_source_def Let_def split: option.splits)
  with list_flat_remembers [of "normalize_source s" vw f s1] assms(1,2) have "remembers s1 (f_hash f)" by simp
  from rediscover_nothing [OF this assms(4)]
  have again: "list_all (\<lambda>r. r = Inr [] \<or> (\<exists>x. r = Inl x)) (rediscover later s1)" .
  have "d_list d (tick w + 1) key = Inr [] \<or> (\<exists>x. d_list d (tick w + 1) key = Inl x)"
    if "d_list d (tick w + 1) key \<in> set (rediscover later s1)" for d :: "'h deps" and w :: "'h world" and key
    using again that unfolding list_all_iff by blast
  with nothing_collected again show ?thesis by blast
qed

text \<open>A file found, its collection failed, and the next attempt.\<close>

definition reading_view :: view where
  "reading_view = \<lparr>vw_platform = Unix, vw_net = [], vw_reach = \<lambda>h. True, vw_ctx = \<lambda>t. None, vw_now = 100,
     vw_walk = \<lambda>dir. [], vw_stat = \<lambda>t p. Inr \<lparr>fi_size = 4, fi_mtime = 0, fi_dir = False\<rparr>,
     vw_sha = \<lambda>p. Inr ''9f86'', vw_dec = \<lambda>n s. Inr s\<rparr>"

definition reading_source :: source where
  "reading_source = (new_source ''gauge'' ''/data/reading.txt'' '''' 50)\<lparr>s_flat := True, s_hash := True\<rparr>"

definition failed_once :: "mem_store world" where
  "failed_once = sample_start\<lparr>fs_of := \<lparr>mem = fold apply_op
     [OpBegin None 5 key_1 10, OpFailed None 6 key_1 file_a ''storage down'', OpEnd None 7 7 key_1 StatusFailed ''x''] new_memory,
     disk = None\<rparr>\<rparr>"

theorem failed_flat_file_is_not_retried_witness:
  "\<exists>f s1 w'. list_source reading_view day_1 reading_source = (Inr [f], s1) \<and>
     fst (list_source reading_view day_1 s1) = Inr [] \<and>
     mem_status_of key_1 (mem (fs_of failed_once)) = Some StatusFailed \<and>
     snd (collect_one ((with_memory plant)\<lparr>d_list := \<lambda>t k. Inr []\<rparr>) key_1 failed_once) = w' \<and>
     store_of w' = store_of failed_once \<and> mem_status_of key_1 (mem (fs_of w')) = Some StatusFailed"
proof -
  have c: "case list_source reading_view day_1 reading_source of
      (Inr [f], s1) \<Rightarrow> f_hash f = ''9f86'' \<and> fst (list_source reading_view day_1 s1) = Inr [] | _ \<Rightarrow> False"
    by code_simp
  obtain f s1 where l: "list_source reading_view day_1 reading_source = (Inr [f], s1)"
    and h: "f_hash f = ''9f86''" and n: "fst (list_source reading_view day_1 s1) = Inr []"
    using c by (auto split: prod.splits sum.splits list.splits)
  let ?d = "(with_memory plant)\<lparr>d_list := \<lambda>t k. Inr []\<rparr>"
  obtain r w' where w: "collect_one ?d key_1 failed_once = (r, w')" by fastforce
  have st: "mem_status_of key_1 (mem (fs_of failed_once)) = Some StatusFailed" by (simp add: failed_once_def mem_defs mem_status_of_def new_memory_def)
  have "d_list ?d (tick failed_once + 1) key_1 \<in> set (rediscover [(reading_view, day_1)] s1)"
    using n by (simp add: case_prod_beta)
  moreover have a: "s_flat reading_source" "s_hash reading_source"
    "list_all (\<lambda>(v, dt). vw_sha v (s_root s1) = Inr (f_hash f)) [(reading_view, day_1)]"
    using h by (simp_all add: reading_source_def reading_view_def)
  ultimately have "store_of w' = store_of failed_once"
    using failed_flat_file_is_not_retried [OF a(1,2) l a(3)] w by blast
  moreover have "mem (fs_of w') = mem (fs_of failed_once)"
    using w st by (auto simp: collect_one_def Let_def)
  ultimately show ?thesis using l n st w by auto
qed

end
