(* ===== verification/CsvReader.thy ===== *)
theory CsvReader
  imports GoText
begin

text \<open>
  Go's encoding/csv reader as the parser uses it: \<open>LazyQuotes\<close>, \<open>TrimLeadingSpace\<close> and comments
  off, a delimiter of one rune given by its bytes, \<open>FieldsPerRecord\<close> as the reader keeps it. The
  text of an error leaves out the line and column it names. The reader's input is the rest of a
  byte string.
\<close>

section \<open>Lines\<close>

text \<open>\<open>readLine\<close>: a line with its newline, without a carriage return before it or before the end.\<close>

definition read_line :: "string \<Rightarrow> (string \<times> string) option" where
  "read_line s =
     (if s = '''' then None
      else (let l = takeWhile (\<lambda>c. c \<noteq> newline) s in
            case dropWhile (\<lambda>c. c \<noteq> newline) s of
              [] \<Rightarrow> Some (drop_last carriage l, [])
            | _ # r \<Rightarrow> Some (drop_last carriage l @ [newline], r)))"

lemma read_line_length: "read_line s = Some (l, r) \<Longrightarrow> length l + length r \<le> length s \<and> length r < length s"
proof -
  assume a: "read_line s = Some (l, r)"
  have n: "length s = length (takeWhile (\<lambda>c. c \<noteq> newline) s) + length (dropWhile (\<lambda>c. c \<noteq> newline) s)"
    by (metis length_append takeWhile_dropWhile_id)
  have s: "s \<noteq> []" using a by (auto simp: read_line_def)
  note d = drop_last_length [of carriage "takeWhile (\<lambda>c. c \<noteq> newline) s"]
  show ?thesis
  proof (cases "dropWhile (\<lambda>c. c \<noteq> newline) s")
    case Nil
    have "l = drop_last carriage (takeWhile (\<lambda>c. c \<noteq> newline) s)" "r = []"
      using a s Nil by (simp_all add: read_line_def Let_def)
    moreover have "0 < length s" using s by blast
    ultimately show ?thesis using n d unfolding Nil by simp
  next
    case (Cons c r)
    with a s n d show ?thesis by (auto simp: read_line_def Let_def)
  qed
qed

section \<open>Records\<close>

datatype csv_error = InvalidDelim | BareQuote | QuoteError | FieldCount

definition csv_error_text :: "csv_error \<Rightarrow> string" where
  "csv_error_text e =
     (case e of InvalidDelim \<Rightarrow> ''csv: invalid field or comment delimiter''
              | BareQuote \<Rightarrow> ''bare '' @ [CHR 0x5C, quote] @ '' in non-quoted field''
              | QuoteError \<Rightarrow> ''extraneous or missing '' @ [CHR 0x5C, quote] @ '' in quoted-field''
              | FieldCount \<Rightarrow> ''wrong number of fields'')"

text \<open>
  The fields of a record from a line and the input after it: those complete, the error, the
  input left. A quoted field goes on over the ends of lines.
\<close>

function parse_fields :: "string \<Rightarrow> string \<Rightarrow> string \<Rightarrow> string list \<Rightarrow> string list \<times> csv_error option \<times> string"
  and parse_quoted :: "string \<Rightarrow> string \<Rightarrow> string \<Rightarrow> string list \<Rightarrow> string \<Rightarrow> string list \<times> csv_error option \<times> string" where
  "parse_fields comma line rest flds =
     (if line \<noteq> '''' \<and> hd line = quote then parse_quoted comma (tl line) rest flds ''''
      else (case cut_str comma line of
              Some (field, after) \<Rightarrow>
                if comma = '''' then (flds, Some InvalidDelim, rest)
                else if quote \<in> set field then (flds, Some BareQuote, rest)
                else parse_fields comma after rest (flds @ [field])
            | None \<Rightarrow>
                if quote \<in> set line then (flds, Some BareQuote, rest)
                else (flds @ [drop_last newline line], None, rest)))"
| "parse_quoted comma line rest flds acc =
     (case cut_str [quote] line of
        Some (before, after) \<Rightarrow>
          if after \<noteq> '''' \<and> hd after = quote then parse_quoted comma (tl after) rest flds (acc @ before @ [quote])
          else if is_prefix comma after then parse_fields comma (drop (length comma) after) rest (flds @ [acc @ before])
          else if after = '''' \<or> after = [newline] then (flds @ [acc @ before], None, rest)
          else (flds, Some QuoteError, rest)
      | None \<Rightarrow>
          if line = '''' then (flds, Some QuoteError, rest)
          else (case read_line rest of
                  Some (l, r) \<Rightarrow> parse_quoted comma l r flds (acc @ line)
                | None \<Rightarrow> parse_quoted comma '''' '''' flds (acc @ line)))"
  by pat_completeness auto
termination
  by (relation "measure (\<lambda>x. case x of Inl (comma, line, rest, flds) \<Rightarrow> length line + length rest
                                    | Inr (comma, line, rest, flds, acc) \<Rightarrow> length line + length rest)")
    (auto dest!: cut_str_length read_line_length simp: neq_Nil_conv)

declare parse_fields.simps [simp del] parse_quoted.simps [simp del]

text \<open>The input left is never longer than before.\<close>

lemma parse_rest:
  "parse_fields comma line rest flds = (fs, e, rest1) \<Longrightarrow> length rest1 \<le> length rest"
  "parse_quoted comma line rest flds acc = (fs, e, rest1) \<Longrightarrow> length rest1 \<le> length rest"
proof (induction comma line rest flds and comma line rest flds acc arbitrary: fs e rest1 and fs e rest1
    rule: parse_fields_parse_quoted.induct)
  case (1 comma line rest flds)
  show ?case
  proof (cases "line \<noteq> '''' \<and> hd line = quote")
    case True
    with 1 show ?thesis by (simp add: parse_fields.simps [of comma line])
  next
    case False
    show ?thesis
    proof (cases "cut_str comma line")
      case (Some p)
      obtain f a where p: "p = (f, a)" by fastforce
      show ?thesis
      proof (cases "comma = '''' \<or> quote \<in> set f")
        case True
        with "1.prems" False Some p show ?thesis by (auto simp: parse_fields.simps [of comma line] split: if_splits)
      next
        case ok: False
        with "1.prems" False Some p have "parse_fields comma a rest (flds @ [f]) = (fs, e, rest1)"
          by (auto simp: parse_fields.simps [of comma line])
        with "1.IH"(2) [OF False Some p [symmetric]] ok show ?thesis by auto
      qed
    qed (use "1.prems" False in \<open>auto simp: parse_fields.simps [of comma line] split: if_splits\<close>)
  qed
next
  case (2 comma line rest flds acc)
  note unfold = parse_quoted.simps [of comma line rest flds acc]
  show ?case
  proof (cases "cut_str [quote] line")
    case None
    show ?thesis
    proof (cases "line = ''''")
      case False
      show ?thesis
      proof (cases "read_line rest")
        case r: (Some lr)
        obtain l r where lr: "lr = (l, r)" by fastforce
        have "parse_quoted comma l r flds (acc @ line) = (fs, e, rest1)"
          using "2.prems" None False r lr by (simp add: unfold)
        from "2.IH"(2) [OF None False r lr [symmetric] this] read_line_length [of rest l r] r lr show ?thesis by simp
      next
        case n: None
        have "parse_quoted comma '''' '''' flds (acc @ line) = (fs, e, rest1)"
          using "2.prems" None False n by (simp add: unfold)
        from "2.IH"(1) [OF None False n this] show ?thesis by simp
      qed
    qed (use "2.prems" None in \<open>simp add: parse_quoted.simps [of comma "''''"]\<close>)
  next
    case (Some p)
    obtain b a where p: "p = (b, a)" by fastforce
    consider (esc) "a \<noteq> '''' \<and> hd a = quote" | (more) "\<not> (a \<noteq> '''' \<and> hd a = quote)" "is_prefix comma a"
      | (stop) "\<not> (a \<noteq> '''' \<and> hd a = quote)" "\<not> is_prefix comma a" by blast
    then show ?thesis
    proof cases
      case esc
      with "2.IH"(3) [OF Some p [symmetric] esc] "2.prems" Some p show ?thesis by (simp add: unfold)
    next
      case more
      with "2.IH"(4) [OF Some p [symmetric] more] "2.prems" Some p show ?thesis by (simp add: unfold)
    next
      case stop
      with "2.prems" Some p show ?thesis by (simp add: unfold split: if_splits)
    qed
  qed
qed

end
