(* ===== verification/CsvParser.thy ===== *)
theory CsvParser
  imports CsvReader Encoding Collector
begin

text \<open>
  The CSV parser (app/parser/parser.go and structured.go): from the bytes of a file to the
  document the executor reads, a head, a header, the rows before the end and how the stream ends.
  \<open>dec\<close> is the streaming decoder of golang.org/x/text with a given name, \<open>c\<close> answers
  \<open>ctx.Err()\<close>, once per row asked for. No delimiter configured is the empty string.
\<close>

section \<open>The reader\<close>

record reader =
  r_comma :: string
  r_fields :: int
  r_rest :: string

definition valid_delim :: "string \<Rightarrow> bool" where
  "valid_delim comma \<longleftrightarrow>
     comma \<noteq> '''' \<and> rune_len comma = length comma \<and> comma \<noteq> [quote] \<and> comma \<noteq> [carriage] \<and> comma \<noteq> [newline] \<and>
     fst (decode_rune comma) \<noteq> rune_error"

function next_line :: "string \<Rightarrow> (string \<times> string) option" where
  "next_line s =
     (case read_line s of
        None \<Rightarrow> None
      | Some (l, r) \<Rightarrow> if l = '''' \<or> l = [newline] then next_line r else Some (l, r))"
  by pat_completeness auto
termination
  by (relation "measure length") (auto dest!: read_line_length)

declare next_line.simps [simp del]

datatype read_result = EndOfFile | Fields "string list" "csv_error option"

definition csv_read :: "reader \<Rightarrow> read_result \<times> reader" where
  "csv_read rd =
     (if \<not> valid_delim (r_comma rd) then (Fields [] (Some InvalidDelim), rd)
      else (case next_line (r_rest rd) of
              None \<Rightarrow> (EndOfFile, rd\<lparr>r_rest := ''''\<rparr>)
            | Some (line, rest) \<Rightarrow>
                (let (fs, e, rest1) = parse_fields (r_comma rd) line rest [];
                     rd1 = rd\<lparr>r_rest := rest1\<rparr>
                 in if r_fields rd > 0 then
                      (Fields fs (if int (length fs) \<noteq> r_fields rd \<and> e = None then Some FieldCount else e), rd1)
                    else (Fields fs e, if r_fields rd = 0 then rd1\<lparr>r_fields := int (length fs)\<rparr> else rd1))))"

definition csv_new_reader :: "string \<Rightarrow> reader" where
  "csv_new_reader data = \<lparr>r_comma = '','', r_fields = 0, r_rest = data\<rparr>"

section \<open>The stream\<close>

record csv_parser =
  p_has_header :: bool
  p_comma :: string
  p_skip_lines :: int
  p_mode :: string
  p_start_row :: int
  p_end_row :: int
  p_header_row :: int
  p_encoding :: string
  p_allow_ragged :: bool

definition is_utf8_related :: "string list \<Rightarrow> bool" where
  "is_utf8_related fs \<longleftrightarrow> list_ex (\<lambda>f. \<not> valid_string f) fs \<or> list_ex (\<lambda>f. CHR 0x00 \<in> set f) fs"

definition classify_csv_error :: "string list \<Rightarrow> string \<Rightarrow> err" where
  "classify_csv_error fs e =
     (if is_utf8_related fs then source_error err_invalid_encoding (Wrapped (''csv field: '' @ e) [])
      else source_error err_malformed_csv (Wrapped (''csv row: '' @ e) []))"

lemma next_line_length: "next_line s = Some (l, r) \<Longrightarrow> length r < length s"
proof (induction s rule: next_line.induct)
  case (1 s)
  then obtain l1 r1 where rl: "read_line s = Some (l1, r1)"
    by (auto simp: next_line.simps [of s] split: option.splits)
  note len = read_line_length [OF rl]
  show ?case
  proof (cases "l1 = '''' \<or> l1 = [newline]")
    case True
    then have "next_line r1 = Some (l, r)" using "1.prems" rl by (simp add: next_line.simps [of s])
    from "1.IH" [OF rl refl True this] len show ?thesis by simp
  next
    case False
    with "1.prems" rl len show ?thesis by (auto simp: next_line.simps [of s])
  qed
qed

lemma csv_read_length: "csv_read rd = (Fields fs None, rd1) \<Longrightarrow> length (r_rest rd1) < length (r_rest rd)"
  by (auto simp: csv_read_def Let_def split: if_splits option.splits prod.splits
      dest!: next_line_length parse_rest(1))

text \<open>\<open>Next\<close> until the stream ends: the rows, and the error it ends with.\<close>

function stream_rows :: "(nat \<Rightarrow> ctx) \<Rightarrow> nat \<Rightarrow> reader \<Rightarrow> row list \<times> err option" where
  "stream_rows c n rd =
     (case c (n + 1) of
        Some e \<Rightarrow> ([], Some (Wrapped (err_text err_timeout @ '': '' @ err_text e) [err_timeout]))
      | None \<Rightarrow>
          (case csv_read rd of
             (EndOfFile, rd1) \<Rightarrow> ([], None)
           | (Fields fs (Some e), rd1) \<Rightarrow> ([], Some (classify_csv_error fs (csv_error_text e)))
           | (Fields fs None, rd1) \<Rightarrow>
               if list_ex (\<lambda>f. \<not> valid_string f) fs then
                 ([], Some (source_error err_invalid_encoding (Wrapped ''row contains invalid UTF-8'' [])))
               else (case stream_rows c (n + 1) rd1 of
                       (rows, e) \<Rightarrow> (\<lparr>row_number = n + 1, row_fields = fs\<rparr> # rows, e))))"
  by pat_completeness auto
termination
  by (relation "measure (\<lambda>(c, n, rd). length (r_rest rd))") (auto dest: csv_read_length [OF sym])

declare stream_rows.simps [simp del]

section \<open>Plain files\<close>

definition io_eof :: err where
  "io_eof = Sentinel ''io.EOF'' ''EOF''"

definition model_err_eof :: err where
  "model_err_eof = Sentinel ''model.ErrEOF'' ''record stream exhausted''"

definition plain_head :: csv_head where
  "plain_head = \<lparr>doc_metadata = [], structured = False\<rparr>"

text \<open>The first lines dropped, none left when they are the whole file.\<close>

fun skip_lines :: "nat \<Rightarrow> string \<Rightarrow> string option" where
  "skip_lines 0 s = Some s"
| "skip_lines (Suc n) s = (case dropWhile (\<lambda>c. c \<noteq> newline) s of [] \<Rightarrow> None | _ # r \<Rightarrow> skip_lines n r)"

definition streamed :: "csv_head \<Rightarrow> string list \<Rightarrow> row list \<times> err option \<Rightarrow> parsed" where
  "streamed head header s = \<lparr>p_head = head, p_header = header, p_rows = fst s, p_end = snd s\<rparr>"

definition parse_flat :: "(nat \<Rightarrow> ctx) \<Rightarrow> csv_parser \<Rightarrow> string \<Rightarrow> parsed res" where
  "parse_flat c p data =
     (if p_skip_lines p < 0 then Inl (source_error err_invalid_file (Wrapped ''skip_lines must be >= 0'' []))
      else (case skip_lines (nat (p_skip_lines p)) data of
              None \<Rightarrow> Inr (streamed plain_head [] ([], None))
            | Some rest \<Rightarrow>
                (let rd = \<lparr>r_comma = (if p_comma p \<noteq> '''' then p_comma p else '',''),
                           r_fields = (if p_allow_ragged p then - 1 else 0), r_rest = rest\<rparr>
                 in if \<not> p_has_header p then Inr (streamed plain_head [] (stream_rows c 0 rd))
                    else (case csv_read rd of
                            (EndOfFile, rd1) \<Rightarrow>
                              if io_eof = model_err_eof then Inr (streamed plain_head [] ([], None))
                              else Inl (classify_csv_error [] (err_text io_eof))
                          | (Fields fs (Some e), rd1) \<Rightarrow> Inl (classify_csv_error fs (csv_error_text e))
                          | (Fields fs None, rd1) \<Rightarrow>
                              if list_ex (\<lambda>f. \<not> valid_string f) fs then
                                Inl (source_error err_invalid_encoding (Wrapped ''header contains invalid UTF-8'' []))
                              else Inr (streamed plain_head fs (stream_rows c 0 rd1))))))"

section \<open>Files with a metadata section\<close>

definition malformed :: "string \<Rightarrow> err" where
  "malformed t = Wrapped (err_text err_malformed_csv @ '': '' @ t) [err_malformed_csv]"

definition misconfigured :: "string \<Rightarrow> err" where
  "misconfigured t = Wrapped (err_text err_invalid_config @ '': '' @ t) [err_invalid_config]"

definition read_physical_line :: "string \<Rightarrow> (string \<times> string) option" where
  "read_physical_line s =
     (if s = '''' then None
      else Some (drop_last carriage (takeWhile (\<lambda>c. c \<noteq> newline) s),
                 case dropWhile (\<lambda>c. c \<noteq> newline) s of [] \<Rightarrow> [] | _ # r \<Rightarrow> r))"

definition is_blank_csv_line :: "string \<Rightarrow> bool" where
  "is_blank_csv_line line \<longleftrightarrow> trim_space line = ''''"

definition parse_csv_line :: "string \<Rightarrow> int \<Rightarrow> string list option res" where
  "parse_csv_line line k =
     (if is_blank_csv_line line then Inr None
      else (case fst (csv_read (csv_new_reader line)) of
              EndOfFile \<Rightarrow> Inr None
            | Fields fs (Some e) \<Rightarrow>
                Inl (source_error err_malformed_csv (Wrapped (''csv row '' @ int_dec k @ '': '' @ csv_error_text e) []))
            | Fields fs None \<Rightarrow> Inr (Some fs)))"

text \<open>The two loops over rows that must be blank.\<close>

fun blank_rows :: "string \<Rightarrow> (int \<Rightarrow> string) \<Rightarrow> nat \<Rightarrow> int \<Rightarrow> string \<Rightarrow> string res" where
  "blank_rows eof bad 0 k s = Inr s"
| "blank_rows eof bad (Suc n) k s =
     (case read_physical_line s of
        None \<Rightarrow> Inl (malformed eof)
      | Some (l, r) \<Rightarrow> if \<not> is_blank_csv_line l then Inl (malformed (bad k)) else blank_rows eof bad n (k + 1) r)"

text \<open>The metadata rows: \<open>known\<close> has the first row of each key.\<close>

fun metadata_rows :: "nat \<Rightarrow> int \<Rightarrow> string \<Rightarrow> (string \<times> int) list \<Rightarrow> metadata \<Rightarrow> (metadata \<times> string) res" where
  "metadata_rows 0 k s known md = Inr (md, s)"
| "metadata_rows (Suc n) k s known md =
     (let row = ''csv metadata row '' @ int_dec k in
      case read_physical_line s of
        None \<Rightarrow> Inl (malformed (row @ '': unexpected end of file''))
      | Some (l, r) \<Rightarrow>
          (case parse_csv_line l k of
             Inl e \<Rightarrow> Inl e
           | Inr None \<Rightarrow> Inl (malformed (row @ '' must contain key,value''))
           | Inr (Some fs) \<Rightarrow>
               if length fs \<noteq> 2 then
                 Inl (malformed (row @ '' is malformed: want key,value (got '' @ nat_dec (length fs) @ '' fields)''))
               else if list_ex (\<lambda>f. \<not> valid_string f) fs then
                 Inl (source_error err_invalid_encoding (Wrapped (row @ '' contains invalid UTF-8'') []))
               else
                (let key = trim_space (fs ! 0) in
                 if key = '''' then Inl (malformed (row @ '': empty metadata key''))
                 else (case map_of known key of
                         Some prev \<Rightarrow>
                           Inl (malformed (row @ '': duplicate metadata key: '' @ key @ '' (first row '' @ int_dec prev @ '')''))
                       | None \<Rightarrow> metadata_rows n (k + 1) r (AList.update key k known) (AList.update key (fs ! 1) md)))))"

text \<open>The checks of the header's columns, from column \<open>i\<close> on.\<close>

fun check_header :: "int \<Rightarrow> nat \<Rightarrow> string list \<Rightarrow> (string \<times> nat) list \<Rightarrow> err option" where
  "check_header k i [] known = None"
| "check_header k i (col # cols) known =
     (if \<not> valid_string col then
        Some (source_error err_invalid_encoding (Wrapped (''csv data header row '' @ int_dec k @ '' contains invalid UTF-8'') []))
      else (case map_of known col of
              Some prev \<Rightarrow>
                Some (malformed (''duplicate data header '' @ go_quote col @ '' at row '' @ int_dec k @ '' column '' @ nat_dec (i + 1) @
                  '' (first column '' @ nat_dec (prev + 1) @ '')''))
            | None \<Rightarrow> check_header k (i + 1) cols (AList.update col i known)))"

definition data_section :: "(nat \<Rightarrow> ctx) \<Rightarrow> csv_parser \<Rightarrow> metadata \<Rightarrow> string \<Rightarrow> parsed res" where
  "data_section c p md s =
     (let row = int_dec (p_header_row p); none = malformed (''data header not found (expected row '' @ row @ '')'') in
      case read_physical_line s of
        None \<Rightarrow> Inl none
      | Some (l, r) \<Rightarrow>
          (case parse_csv_line l (p_header_row p) of
             Inl e \<Rightarrow> Inl e
           | Inr None \<Rightarrow> Inl (malformed (''csv data header row '' @ row @ '' is empty''))
           | Inr (Some header) \<Rightarrow>
               if header = [] then Inl (malformed (''csv data header row '' @ row @ '' is empty''))
               else (case check_header (p_header_row p) 0 header [] of
                       Some e \<Rightarrow> Inl e
                     | None \<Rightarrow>
                         Inr (streamed \<lparr>doc_metadata = md, structured = True\<rparr> header
                           (stream_rows c 0 \<lparr>r_comma = (if p_comma p \<noteq> '''' then p_comma p else '',''),
                                             r_fields = int (length header), r_rest = r\<rparr>)))))"

definition parse_structured :: "(nat \<Rightarrow> ctx) \<Rightarrow> csv_parser \<Rightarrow> string \<Rightarrow> parsed res" where
  "parse_structured c p data =
     (if \<not> p_has_header p then Inl (misconfigured ''structured csv.metadata mode requires header=true'')
      else if p_skip_lines p > 0 then Inl (misconfigured ''structured csv.metadata mode cannot be combined with skip_lines'')
      else
       (case c 0 of Some e \<Rightarrow> Inl e
        | None \<Rightarrow>
           (let hr = int_dec (p_header_row p); k1 = max 1 (p_start_row p); k2 = max k1 (p_end_row p + 1) in
            case blank_rows (''data header not found (row '' @ hr @ '')'')
                   (\<lambda>k. ''csv row '' @ int_dec k @ '' must be blank before metadata start_row'') (nat (k1 - 1)) 1 data of
              Inl e \<Rightarrow> Inl e
            | Inr s1 \<Rightarrow>
                (case metadata_rows (nat (k2 - k1)) k1 s1 [] new_metadata of
                   Inl e \<Rightarrow> Inl e
                 | Inr (md, s2) \<Rightarrow>
                     (case blank_rows (''data header not found (expected row '' @ hr @ '')'')
                             (\<lambda>k. ''csv row '' @ int_dec k @ '' must be a blank separator before data header'')
                             (nat (p_header_row p - k2)) k2 s2 of
                        Inl e \<Rightarrow> Inl e
                      | Inr s3 \<Rightarrow> data_section c p md s3)))))"

text \<open>\<open>Parse\<close> on the bytes of a file.\<close>

definition parse_csv :: "(string \<Rightarrow> string \<Rightarrow> string) \<Rightarrow> (nat \<Rightarrow> ctx) \<Rightarrow> csv_parser \<Rightarrow> string \<Rightarrow> parsed res" where
  "parse_csv dec c p data =
     (case parser_input (p_encoding p) data of
        Inl e \<Rightarrow> Inl e
      | Inr (d, rest) \<Rightarrow>
          (let src = (case d of None \<Rightarrow> rest | Some name \<Rightarrow> dec name rest)
           in if p_mode p = ''key_value'' then parse_structured c p src else parse_flat c p src))"

end
