(* ===== verification/CsvProps.thy ===== *)
theory CsvProps
  imports CsvParser
begin

text \<open>
  A table written with every field in quotes comes back from the parser: the fields, over any
  number of lines, the header, and the rows with their numbers.
\<close>

section \<open>Writing a table\<close>

fun escape :: "string \<Rightarrow> string" where
  "escape [] = []"
| "escape (c # f) = (if c = quote then [quote, quote] else [c]) @ escape f"

definition show_field :: "string \<Rightarrow> string" where
  "show_field f = quote # escape f @ [quote]"

fun show_row :: "string \<Rightarrow> string list \<Rightarrow> string" where
  "show_row comma [] = [newline]"
| "show_row comma [f] = show_field f @ [newline]"
| "show_row comma (f # g # fs) = show_field f @ comma @ show_row comma (g # fs)"

definition show_table :: "string \<Rightarrow> string list list \<Rightarrow> string" where
  "show_table comma rows = concat (map (show_row comma) rows)"

section \<open>Reading it back\<close>

definition line_of :: "string \<Rightarrow> string \<times> string" where
  "line_of t = (case read_line t of None \<Rightarrow> ([], []) | Some x \<Rightarrow> x)"

lemma drop_last_absent [simp]: "c \<notin> set s \<Longrightarrow> drop_last c s = s"
  by (auto simp: drop_last_def)

lemma takeWhile_absent: "c \<notin> set t \<Longrightarrow> c \<notin> set (takeWhile P t)"
  by (auto dest: set_takeWhileD)

lemma line_of_clean:
  assumes "carriage \<notin> set t"
  shows "line_of t = (takeWhile (\<lambda>c. c \<noteq> newline) t @ take 1 (dropWhile (\<lambda>c. c \<noteq> newline) t),
    drop 1 (dropWhile (\<lambda>c. c \<noteq> newline) t))"
proof -
  have k: "drop_last carriage (takeWhile (\<lambda>c. c \<noteq> newline) t) = takeWhile (\<lambda>c. c \<noteq> newline) t"
    by (rule drop_last_absent [OF takeWhile_absent [OF assms]])
  show ?thesis
  proof (cases "dropWhile (\<lambda>c. c \<noteq> newline) t")
    case Nil
    then have "takeWhile (\<lambda>c. c \<noteq> newline) t = t" by (metis append_Nil2 takeWhile_dropWhile_id)
    with Nil show ?thesis by (cases "t = []") (simp_all add: line_of_def read_line_def Let_def k del: dropWhile_eq_Nil_conv)
  next
    case (Cons d u)
    then have d: "d = newline" using hd_dropWhile [of "\<lambda>c. c \<noteq> newline" t] by simp
    have "t \<noteq> []" using Cons by auto
    then show ?thesis unfolding line_of_def read_line_def Let_def k Cons d by simp
  qed
qed

lemma line_of_Nil [simp]: "line_of [] = ([], [])"
  by (simp add: line_of_def read_line_def)

lemma line_of_newline [simp]: "line_of (newline # t) = ([newline], t)"
  by (simp add: line_of_def read_line_def drop_last_def)

lemma line_of_Cons:
  "carriage \<notin> set (c # t) \<Longrightarrow> c \<noteq> newline \<Longrightarrow> line_of (c # t) = (c # fst (line_of t), snd (line_of t))"
  using line_of_clean [of "c # t"] line_of_clean [of t] by simp

lemma line_of_append:
  "carriage \<notin> set (s @ t) \<Longrightarrow> newline \<notin> set s \<Longrightarrow> line_of (s @ t) = (s @ fst (line_of t), snd (line_of t))"
proof (induction s)
  case (Cons c s)
  then have "carriage \<notin> set (c # (s @ t))" "c \<noteq> newline" by auto
  from line_of_Cons [OF this] Cons show ?case by simp
qed simp

lemma line_of_empty:
  assumes "carriage \<notin> set t" "fst (line_of t) = []"
  shows "t = []"
proof (cases t)
  case (Cons c u)
  with assms line_of_Cons [of c u] show ?thesis by (cases "c = newline") auto
qed simp

lemma quoted_char:
  assumes "c \<noteq> quote" "carriage \<notin> set t"
  shows "parse_quoted comma (c # fst (line_of t)) (snd (line_of t)) flds acc =
    parse_quoted comma (fst (line_of t)) (snd (line_of t)) flds (acc @ [c])"
proof -
  obtain l r where l: "line_of t = (l, r)" by fastforce
  show ?thesis
  proof (cases "cut_str [quote] l")
    case None
    show ?thesis
    proof (cases "l = []")
      case True
      then have "t = []" using line_of_empty [OF assms(2)] l by simp
      then have "r = []" using l by simp
      with True None l assms(1) show ?thesis
        by (simp add: parse_quoted.simps [of comma "[c]"] parse_quoted.simps [of comma "[]"] is_prefix_def read_line_def)
    next
      case False
      with None l assms(1) show ?thesis
        by (simp add: parse_quoted.simps [of comma "c # l"] parse_quoted.simps [of comma l] is_prefix_def split: option.split)
    qed
  next
    case (Some p)
    with l assms(1) show ?thesis
      by (simp add: parse_quoted.simps [of comma "c # l"] parse_quoted.simps [of comma l] is_prefix_def case_prod_beta)
  qed
qed

lemma quoted_newline:
  "parse_quoted comma [newline] t flds acc = parse_quoted comma (fst (line_of t)) (snd (line_of t)) flds (acc @ [newline])"
  by (subst parse_quoted.simps) (simp add: is_prefix_def line_of_def split: option.split prod.split)

lemma quoted_quote:
  "parse_quoted comma (quote # quote # l) r flds acc = parse_quoted comma l r flds (acc @ [quote])"
  by (subst parse_quoted.simps) (simp add: is_prefix_def)

lemma escape_set: "set (escape f) \<subseteq> insert quote (set f)"
  by (induction f) auto

lemma quoted_escape:
  "carriage \<notin> set f \<Longrightarrow> carriage \<notin> set t \<Longrightarrow>
     parse_quoted comma (fst (line_of (escape f @ t))) (snd (line_of (escape f @ t))) flds acc =
     parse_quoted comma (fst (line_of t)) (snd (line_of t)) flds (acc @ f)"
proof (induction f arbitrary: acc)
  case (Cons c f)
  have no: "carriage \<notin> set (escape f @ t)" using Cons.prems escape_set [of f] by auto
  note IH = Cons.IH [OF _ Cons.prems(2), of "acc @ [c]"]
  consider (q) "c = quote" | (n) "c = newline" | (o) "c \<noteq> quote" "c \<noteq> newline" by blast
  then show ?case
  proof cases
    case q
    have "line_of (quote # quote # escape f @ t) = (quote # quote # fst (line_of (escape f @ t)), snd (line_of (escape f @ t)))"
      using no by (simp add: line_of_Cons)
    with q IH Cons.prems show ?thesis by (simp add: quoted_quote)
  next
    case n
    with IH Cons.prems show ?thesis by (simp add: quoted_newline)
  next
    case o
    with IH Cons.prems no quoted_char [OF o(1) no] show ?thesis by (simp add: line_of_Cons)
  qed
qed simp

lemma valid_delim_bytes:
  assumes "valid_delim comma"
  shows "comma \<noteq> []" "newline \<notin> set comma" "carriage \<notin> set comma" "hd comma \<noteq> quote"
proof -
  obtain a s where c: "comma = a # s" using assms by (cases comma) (auto simp: valid_delim_def)
  have r: "rune_len (a # s) = Suc (length s)" using assms by (simp add: valid_delim_def c)
  then have l: "lead_len a = Suc (length s)" and k: "list_all cont (take (lead_len a - 1) s)"
    by (auto simp: rune_len.simps Let_def split: if_splits)
  then have k: "list_all cont s" by simp
  show "comma \<noteq> []" by (simp add: c)
  have n: "\<not> cont newline" "\<not> cont carriage" by (simp_all add: cont_def)
  have a: "s = [] \<or> byte a \<ge> 0x80" using l by (auto simp: lead_len_def split: if_splits)
  show "newline \<notin> set comma" "carriage \<notin> set comma" "hd comma \<noteq> quote"
    using assms a k n by (auto simp: c valid_delim_def list_all_iff)
qed

definition good_row :: "string list \<Rightarrow> bool" where
  "good_row fs \<longleftrightarrow> fs \<noteq> [] \<and> list_all (\<lambda>f. carriage \<notin> set f \<and> valid_string f) fs"

lemma show_row_clean:
  assumes "valid_delim comma" "list_all (\<lambda>f. carriage \<notin> set f \<and> valid_string f) fs"
  shows "carriage \<notin> set (show_row comma fs)"
  using assms(2)
proof (induction fs rule: induct_list012)
  case (2 f)
  then show ?case using escape_set [of f] by (auto simp: show_field_def)
next
  case (3 f g fs)
  then show ?case using escape_set [of f] valid_delim_bytes [OF assms(1)] by (auto simp: show_field_def)
qed simp


section \<open>A field and what follows it\<close>

lemma line_of_quote:
  assumes "carriage \<notin> set t"
  shows "line_of (quote # t) = (quote # fst (line_of t), snd (line_of t))"
  using assms by (simp add: line_of_Cons)

text \<open>The closing quote before a delimiter, and at the end of the line.\<close>

lemma quoted_comma:
  assumes "comma \<noteq> []" "hd comma \<noteq> quote"
  shows "parse_quoted comma (quote # comma @ l) r flds acc = parse_fields comma l r (flds @ [acc])"
  using assms by (subst parse_quoted.simps) (simp add: is_prefix_def)

lemma quoted_end:
  assumes "comma \<noteq> []" "newline \<notin> set comma"
  shows "parse_quoted comma [quote, newline] r flds acc = (flds @ [acc], None, r)"
  using assms by (cases comma) (auto simp: parse_quoted.simps is_prefix_def)

lemma read_field:
  assumes "carriage \<notin> set f" "carriage \<notin> set t"
  shows "parse_fields comma (fst (line_of (show_field f @ t))) (snd (line_of (show_field f @ t))) flds =
    parse_quoted comma (quote # fst (line_of t)) (snd (line_of t)) flds f"
proof -
  have no: "carriage \<notin> set (escape f @ quote # t)" using assms escape_set [of f] by auto
  have "line_of (show_field f @ t) = (quote # fst (line_of (escape f @ quote # t)), snd (line_of (escape f @ quote # t)))"
    using line_of_quote [OF no] by (simp add: show_field_def)
  then have "parse_fields comma (fst (line_of (show_field f @ t))) (snd (line_of (show_field f @ t))) flds =
    parse_quoted comma (fst (line_of (escape f @ quote # t))) (snd (line_of (escape f @ quote # t))) flds []"
    by (simp add: parse_fields.simps [of comma "quote # _"])
  also have "\<dots> = parse_quoted comma (fst (line_of (quote # t))) (snd (line_of (quote # t))) flds f"
    using quoted_escape [of f "quote # t" comma flds "[]"] assms by simp
  finally show ?thesis using line_of_quote [OF assms(2)] by simp
qed

lemma read_row:
  assumes "valid_delim comma"
  shows "fs \<noteq> [] \<Longrightarrow> carriage \<notin> set (show_row comma fs @ t) \<Longrightarrow> list_all (\<lambda>f. carriage \<notin> set f) fs \<Longrightarrow>
    parse_fields comma (fst (line_of (show_row comma fs @ t))) (snd (line_of (show_row comma fs @ t))) flds = (flds @ fs, None, t)"
proof (induction fs arbitrary: flds rule: induct_list012)
  case (2 f)
  have "carriage \<notin> set f" "carriage \<notin> set (newline # t)" using 2 by auto
  from read_field [OF this, of comma flds] show ?case
    using quoted_end [OF valid_delim_bytes(1,2) [OF assms]] by simp
next
  case (3 f g fs)
  have no: "carriage \<notin> set f" "carriage \<notin> set (comma @ show_row comma (g # fs) @ t)" using 3 by auto
  have "line_of (comma @ show_row comma (g # fs) @ t) =
    (comma @ fst (line_of (show_row comma (g # fs) @ t)), snd (line_of (show_row comma (g # fs) @ t)))"
    by (rule line_of_append [OF no(2) valid_delim_bytes(2) [OF assms]])
  with read_field [OF no, of comma flds] "3.IH"(2) [of "flds @ [f]"] 3 show ?case
    using quoted_comma [OF valid_delim_bytes(1,4) [OF assms]] by simp
qed simp

lemma show_row_starts: "fs \<noteq> [] \<Longrightarrow> \<exists>u. show_row comma fs = quote # u"
  by (cases "(comma, fs)" rule: show_row.cases) (auto simp: show_field_def)

lemma next_row:
  assumes "fs \<noteq> []" "carriage \<notin> set (show_row comma fs @ t)"
  shows "next_line (show_row comma fs @ t) = Some (line_of (show_row comma fs @ t))"
proof -
  obtain u where u: "show_row comma fs @ t = quote # u" using show_row_starts [OF assms(1), of comma] by auto
  have l: "line_of (quote # u) = (quote # fst (line_of u), snd (line_of u))"
    using assms(2) unfolding u by (intro line_of_quote) simp
  have "read_line (quote # u) = Some (line_of (quote # u))"
    by (auto simp: line_of_def read_line_def Let_def split: list.split)
  with l show ?thesis unfolding u by (simp add: next_line.simps [of "quote # u"])
qed

section \<open>The table\<close>

definition fits :: "int \<Rightarrow> string list list \<Rightarrow> bool" where
  "fits k rows \<longleftrightarrow> k < 0 \<or> (\<exists>w. (k = 0 \<or> k = int w) \<and> list_all (\<lambda>fs. length fs = w) rows)"

lemma read_fits:
  assumes "valid_delim (r_comma rd)" "r_rest rd = show_row (r_comma rd) fs @ t" "good_row fs" "carriage \<notin> set t"
    "fits (r_fields rd) (fs # rows)"
  shows "\<exists>k. csv_read rd = (Fields fs None, rd\<lparr>r_fields := k, r_rest := t\<rparr>) \<and> fits k rows"
proof -
  have fs: "fs \<noteq> []" "list_all (\<lambda>f. carriage \<notin> set f) fs" using assms(3) by (auto simp: good_row_def list_all_iff)
  have c: "carriage \<notin> set (show_row (r_comma rd) fs @ t)"
    using show_row_clean [OF assms(1), of fs] assms(3,4) by (simp add: good_row_def)
  obtain l r where lr: "line_of (show_row (r_comma rd) fs @ t) = (l, r)" by fastforce
  have "next_line (r_rest rd) = Some (l, r)" using next_row [OF fs(1) c] lr assms(2) by simp
  moreover have "parse_fields (r_comma rd) l r [] = (fs, None, t)"
    using read_row [OF assms(1) fs(1) c fs(2), of "[]"] lr by simp
  ultimately show ?thesis using assms(1,5) fs(1)
    by (intro exI [of _ "if r_fields rd = 0 then int (length fs) else r_fields rd"]) (auto simp: csv_read_def fits_def)
qed

definition numbered :: "nat \<Rightarrow> string list list \<Rightarrow> row list" where
  "numbered n rows = map (\<lambda>(k, fs). \<lparr>row_number = k, row_fields = fs\<rparr>) (enumerate (n + 1) rows)"

lemma show_table_simps [simp]:
  "show_table comma [] = []" "show_table comma (fs # rows) = show_row comma fs @ show_table comma rows"
  by (simp_all add: show_table_def)

lemma show_table_clean:
  "valid_delim comma \<Longrightarrow> list_all good_row rows \<Longrightarrow> carriage \<notin> set (show_table comma rows)"
  by (induction rows) (auto simp: good_row_def dest: show_row_clean)

lemma good_row_valid: "good_row fs \<Longrightarrow> \<not> list_ex (\<lambda>f. \<not> valid_string f) fs"
  by (auto simp: good_row_def list_ex_iff list_all_iff)

lemma stream_table:
  "valid_delim (r_comma rd) \<Longrightarrow> r_rest rd = show_table (r_comma rd) rows \<Longrightarrow> list_all good_row rows \<Longrightarrow>
     fits (r_fields rd) rows \<Longrightarrow> stream_rows (\<lambda>_. None) n rd = (numbered n rows, None)"
proof (induction rows arbitrary: n rd)
  case Nil
  then show ?case
    by (simp add: stream_rows.simps [of _ n rd] csv_read_def next_line.simps [of "[]"] read_line_def numbered_def)
next
  case (Cons fs rows)
  note clean = show_table_clean [OF Cons.prems(1), of rows]
  obtain k where k: "csv_read rd = (Fields fs None, rd\<lparr>r_fields := k, r_rest := show_table (r_comma rd) rows\<rparr>)" "fits k rows"
    using read_fits [of rd fs "show_table (r_comma rd) rows" rows] Cons.prems clean by auto
  let ?rd = "rd\<lparr>r_fields := k, r_rest := show_table (r_comma rd) rows\<rparr>"
  have "stream_rows (\<lambda>_. None) (n + 1) ?rd = (numbered (n + 1) rows, None)"
    by (rule Cons.IH) (use Cons.prems k(2) in simp_all)
  with k(1) good_row_valid [of fs] Cons.prems(3) show ?case
    by (simp add: stream_rows.simps [of _ n rd] numbered_def)
qed


lemma table_input:
  assumes "normalize_encoding enc = Inr ''utf8''" "list_all good_row table"
  shows "parser_input enc (show_table comma table) = Inr (None, show_table comma table)"
proof -
  have "detect_bom (must_peek (show_table comma table)) = BOMNone"
  proof (cases table)
    case (Cons fs rows)
    then obtain u where "show_row comma fs = quote # u"
      using assms(2) show_row_starts [of fs comma] by (auto simp: good_row_def)
    then show ?thesis unfolding Cons by (simp add: must_peek_def detect_bom_def)
  qed (simp add: must_peek_def detect_bom_def)
  with assms(1) show ?thesis by (simp add: parser_input_def decode_stream_def decoder_def)
qed

text \<open>C39. Reading back what was written: for a UTF-8 parser with a header, no lines to skip and
no metadata section, a table whose fields are all written in quotes, quotes in them doubled,
comes back exactly as it was, whatever its fields hold (delimiters, quotes, ends of lines, nothing at all) as
long as they are valid UTF-8 without carriage returns: the first row as the header, the others numbered
from 1, and a clean end of the stream. Rows may differ in width only when ragged rows are allowed. The
table without any row, an empty file, is rejected as malformed instead of being read as an empty stream.\<close>

theorem csv_text_round_trip:
  assumes "normalize_encoding (p_encoding p) = Inr ''utf8''" "p_mode p \<noteq> ''key_value''" "p_has_header p" "p_skip_lines p = 0"
    "valid_delim (if p_comma p = '''' then '','' else p_comma p)" "list_all good_row table"
    "p_allow_ragged p \<or> (\<exists>w. list_all (\<lambda>fs. length fs = w) table)"
  shows "parse_csv dec (\<lambda>_. None) p (show_table (if p_comma p = '''' then '','' else p_comma p) table) =
    (case table of
       [] \<Rightarrow> Inl (source_error err_malformed_csv (Wrapped ''csv row: EOF'' []))
     | header # rows \<Rightarrow>
         Inr \<lparr>p_head = plain_head, p_header = header, p_rows = numbered 0 rows, p_end = None\<rparr>)"
proof -
  define comma where "comma = (if p_comma p = '''' then '','' else p_comma p)"
  define rd where "rd = \<lparr>r_comma = comma, r_fields = (if p_allow_ragged p then - 1 else 0), r_rest = show_table comma table\<rparr>"
  have c: "(if p_comma p \<noteq> '''' then p_comma p else '','') = comma" by (simp add: comma_def)
  have v: "valid_delim comma" using assms(5) by (simp add: comma_def)
  have flat: "parse_csv dec (\<lambda>_. None) p (show_table comma table) = parse_flat (\<lambda>_. None) p (show_table comma table)"
    using table_input [OF assms(1,6), of comma] assms(2) by (simp add: parse_csv_def)
  show ?thesis
  proof (cases table)
    case Nil
    have "csv_read rd = (EndOfFile, rd\<lparr>r_rest := []\<rparr>)"
      using v Nil by (simp add: csv_read_def rd_def next_line.simps [of "[]"] read_line_def)
    with flat Nil assms(3,4) show ?thesis unfolding comma_def [symmetric]
      by (simp add: parse_flat_def c rd_def io_eof_def model_err_eof_def classify_csv_error_def is_utf8_related_def)
  next
    case (Cons header rows)
    have "fits (r_fields rd) (header # rows)" using assms(7) Cons by (auto simp: fits_def rd_def)
    then obtain k where k: "csv_read rd = (Fields header None, rd\<lparr>r_fields := k, r_rest := show_table comma rows\<rparr>)" "fits k rows"
      using read_fits [of rd header "show_table comma rows" rows] v assms(6) Cons show_table_clean [OF v, of rows]
      by (auto simp: rd_def)
    have "stream_rows (\<lambda>_. None) 0 (rd\<lparr>r_fields := k, r_rest := show_table comma rows\<rparr>) = (numbered 0 rows, None)"
      by (rule stream_table) (use v assms(6) Cons k(2) in \<open>simp_all add: rd_def\<close>)
    with flat Cons assms(3,4,6) k(1) good_row_valid [of header] show ?thesis unfolding comma_def [symmetric]
      by (simp add: parse_flat_def c rd_def streamed_def)
  qed
qed

text \<open>A file of three rows with a delimiter of two bytes, ragged, with every awkward character.\<close>

definition section_parser :: csv_parser where
  "section_parser = \<lparr>p_has_header = True, p_comma = map char_of [0xC2, 0xA7 :: nat], p_skip_lines = 0, p_mode = '''',
     p_start_row = 0, p_end_row = 0, p_header_row = 0, p_encoding = '' UTF-8'', p_allow_ragged = True\<rparr>"

definition awkward_row :: "string list" where
  "awkward_row = [[], [quote, newline, quote], [newline], p_comma section_parser @ ''a,b'']"

theorem csv_text_round_trip_witness:
  "parse_csv (\<lambda>_ s. s) (\<lambda>_. None) section_parser (show_table (p_comma section_parser) [[''a'', ''b''], awkward_row, [''x'']]) =
     Inr \<lparr>p_head = plain_head, p_header = [''a'', ''b''],
       p_rows = [\<lparr>row_number = 1, row_fields = awkward_row\<rparr>, \<lparr>row_number = 2, row_fields = [''x'']\<rparr>], p_end = None\<rparr> \<and>
   parse_csv (\<lambda>_ s. s) (\<lambda>_. None) section_parser [] = Inl (source_error err_malformed_csv (Wrapped ''csv row: EOF'' []))"
proof -
  have p1: "normalize_encoding (p_encoding section_parser) = Inr ''utf8''"
    by code_simp
  have "rune_len (map char_of [0xC2, 0xA7 :: nat]) = 2" by code_simp
  then have p2: "valid_delim (p_comma section_parser)"
    by (simp add: valid_delim_def section_parser_def decode_rune_def rune_error_def numeral_2_eq_2)
  have p3: "p_comma section_parser \<noteq> ''''"
    by (simp add: section_parser_def)
  have p4: "list_all good_row [[''a'', ''b''], awkward_row, [''x'']]"
    by code_simp
  note p = p1 p2 p3 p4
  have q: "p_mode section_parser \<noteq> ''key_value''" "p_has_header section_parser" "p_skip_lines section_parser = 0"
    "p_allow_ragged section_parser" by (simp_all add: section_parser_def)
  note t = csv_text_round_trip [of section_parser, OF p(1) q(1-3)]
  have "parse_csv (\<lambda>_ s. s) (\<lambda>_. None) section_parser (show_table (p_comma section_parser) [[''a'', ''b''], awkward_row, [''x'']]) =
     Inr \<lparr>p_head = plain_head, p_header = [''a'', ''b''],
       p_rows = numbered 0 [awkward_row, [''x'']], p_end = None\<rparr>"
    using t [of "[[''a'', ''b''], awkward_row, [''x'']]" "\<lambda>_ s. s"] p q(4) by simp
  moreover have "parse_csv (\<lambda>_ s. s) (\<lambda>_. None) section_parser [] = Inl (source_error err_malformed_csv (Wrapped ''csv row: EOF'' []))"
    using t [of "[]" "\<lambda>_ s. s"] p(2,3) q(4) by simp
  ultimately show ?thesis by (simp add: numbered_def)
qed

end
