(* ===== verification/Spec2Isabelle.thy ===== *)
theory Spec2Isabelle
  imports AlarmUi AlarmUiTsx AutoColumns LedgerRace CollectorProps CollectorScope CollectorBatches Redact TemplateProps HostGate SourceProps CsvProps
begin

text \<open>
  Verification development of the GOCORDIS CSV collector: a program that discovers the CSV files of
  industrial data sources per business date, parses them, writes their rows to a storage in batches
  and keeps a ledger of what it has collected, with a console page of failures as a plugin.

  THE PROGRAM. A trigger (app/collector/executor.go, Handle) resolves the business date
  (app/date/policy.go), asks the recovery planner (app/recovery/planner.go) which dates to attempt,
  and collects them one after the other (collectOne). For a date the source
  (app/source) lists the files; the ledger (app/state) lets the date begin, under a lease of 24 hours;
  each file (collectFile) gets its metadata (app/metadata), is read by the parser (app/parser, over
  app/encoding) and written in batches (app/storage); then the file is marked completed or failed in the
  ledger, and the date ends. Errors are wrapped into the classes of app/errs. The host
  gate (internal/hostgate) is asked before an unreachable share is touched. The console shows
  configurations with their secrets hidden (app/host) and, in a plugin, the failure ledger with a
  chart (plugins/alarm-demo).

  THEORIES AND CODE.
  \<^item> Prelude: the result type (Inl error, Inr value), association lists for Go maps and JavaScript
    objects, decimal printing. GoErrors: Go errors, errors.Is per platform, ClassifySourceError,
    ClassifyStorageError (app/errs). GoText: runes, validity, white space, the UTF-8 replacement of
    encoding/json. Dates: the Gregorian calendar, CollectionDate with its order as an instance of
    linorder. GoModel: keys, identities, metadata, records, results (app/model, app/metadata/document.go).
  \<^item> Ledger: MemoryState, one definition per method (mem_begin, mem_end, mem_drop, mem_mark_completed,
    mem_mark_failed, the queries), each with the answer of ctx.Err() and the clock readings it makes as
    arguments; snapshot and restore. LedgerLaws: the invariant ledger_inv and the locale ledger_contract,
    interpreted as memory (and as filed in LedgerFile). LedgerFile: FileState, NewFile, the migration
    at load, saves that fail. LedgerProps: their properties. LedgerRace: FileState's methods as threads
    of instructions (mutex, memory call, snapshot, MkdirAll, WriteFile, Rename) with every early return.
  \<^item> Planner: resolve_policy and plan. MemStore: the in-process storage, the locale storage_contract and its
    interpretation. Collector: handle, collect_keys, collect_one, collect_files, collect_file, feed,
    write_batch, finish_file. CollectorLaws: the locale collection_pass for any storage that keeps the
    contract, interpreted on the memory storage. CollectorProgress, CollectorProps, CollectorResults,
    CollectorScope, CollectorBatches: what runs do to ledger, store and results.
  \<^item> Paths, Template, TemplateProps: filepath.Clean and Rel, patterns, rules, the backtracking matcher,
    Extract. Encoding: names, byte-order marks, detection. CsvReader, CsvParser, CsvProps: encoding/csv
    as it is used, parser.go and structured.go. Source, SourceProps: the three ways of discovery, the
    content test, the stable window, the checked opening. HostGate: Reachable in four steps between
    which other calls run. AutoColumns: the columns the relational sink derives from a header, and
    the values of a row (part of app/storage/table.go). Redact: display copies of configurations and their
    restoration (redact.go, fleet_redact.go).
  \<^item> JsValue: what the page uses of JavaScript, numbers being binary64. AlarmLoad: the state of AlarmConsole,
    load with its three queries, Promise.all and its callbacks as separate steps, the trigger command
    (ui_step is one event, ui_reach a run); the locale row_contract. AlarmChart: TrendChart. AlarmUi: rows, counters, the
    element tree (ui.js). AlarmUiTsx, AlarmBackend: ui.tsx and the plugin's main.go.

  WHAT THE LEMMAS SHOW. For the ledger: the invariant under every sequence of operations, so that
  a completed file stays completed, a lease excludes, failures are evidence of retries; the
  queries as maxima and sets of the contents, independent of the map order; what survives a restart; which
  interleavings keep the state file current and which one loses a completion. For the executor: rows
  of completed files are stored exactly once under any failures; results, ledger and store agree;
  progress when nothing fails; what cancellation leaves behind; which keys a trigger may touch. For the
  readers: the matcher decides its declarative meaning, compilation inverts printing, a quoted table
  is read back. For discovery, the gate, the redaction and the columns: exact conditions, some of which
  show defects. For the page: an invariant of the loading flags over all interleavings, atomic
  replacement of the data, the chart's sums, when a render throws. Where a property needs a hypothesis its
  witness applies it to a concrete run.

  MODELLING DECISIONS AND BOUNDS.
  \<^item> Readings from outside (clock, ctx.Err(), file system, storage, parser) are numbered by the tick of
    the world and are arguments (deps, view), so two readings may differ. No fuel is used anywhere: every
    loop is a total function, the unbounded ones (free column suffixes) by a measure.
  \<^item> int64 of file identities is a 64-bit word; times and durations are unbounded integers with the
    saturation of Time.Sub where lease and TTL comparisons use it. Attempts, row counts and sequence
    numbers (Go ints that only grow by one) are unbounded.
  \<^item> A Go map is an association list with distinct keys whose order is one iteration order; results that
    must not depend on it are shown not to.
  \<^item> The state file is the snapshot that decoding its JSON gives: strings through the replacement
    of bytes that are not UTF-8, dates through their text; a file that is not such JSON is a load error.
    WriteFile may leave a damaged temporary file; Rename is atomic.
  \<^item> Paths are those of a Unix host. strings.ToLower is that of ASCII, %q that of ASCII and printable runes.
    CSV errors carry no line and column. The streaming decoders of golang.org/x/text and, in
    AutoColumns, the parsers of numbers, booleans and times are arguments; a decoder does not fail.
  \<^item> Files of a date are collected one after the other (FilesPerSource at its default 1).
  \<^item> The fleet's restoration works on the map form of the document; the JSON conversion around it
    (remarshal, fleetMaps) with its errors is left out.
  \<^item> React, antd and ECharts are the consumers of the tree and of the calls; the antd buttons'
    documented behaviour while loading is the argument guarded of ui_step.

  NOT MODELLED: the text parsers, the relational storage apart from the columns (SQL texts and five
  drivers), backup copies and their pruning, logging, the fan-out of FilesPerSource, scheduling and the dynamic
  runtime with its adapters, configuration decoding, the observation journal and its queries, the
  process's start and HTTP console, and built bundles: input and output, glue, or dependencies.
\<close>

end
